theory Spec2Isabelle
  imports Main
begin

section \<open>Runtime values\<close>

text \<open>
  The repository is one document (\<^verbatim>\<open>src/prisma/transactional/readme.md\<close>, repeated in
  \<^verbatim>\<open>src/unnamed/part_000\<close> and after the decorator in \<^verbatim>\<open>src/decorator.ts\<close>) that gives the
  class \<^verbatim>\<open>PrismaService\<close> in successive revisions, and the class decorator
  \<^verbatim>\<open>withTransactionClient\<close>. The revisions are named here by letter:
  \<^item> A: \<^verbatim>\<open>readme.md:26-64\<close>, the service extends \<^verbatim>\<open>PrismaClient\<close> (the getter of
    \<^verbatim>\<open>readme.md:335-363\<close> is this one with log lines);
  \<^item> F: \<^verbatim>\<open>readme.md:374-398\<close>, the getter with the cached \<^verbatim>\<open>_fallbackPrismaClient\<close>;
  \<^item> B: \<^verbatim>\<open>part_000:436-492\<close>, the getter that returns \<^verbatim>\<open>new PrismaClient()\<close>;
  \<^item> C: \<^verbatim>\<open>decorator.ts:685-751\<close>, the service holds a \<^verbatim>\<open>PrismaClient\<close>;
  \<^item> D: \<^verbatim>\<open>decorator.ts:795-856\<close>, the store carries a transaction identifier;
  \<^item> E: \<^verbatim>\<open>decorator.ts:974-999\<close>, \<^verbatim>\<open>transaction\<close> joins an open transaction.
\<close>

text \<open>
  A handle is either a \<^verbatim>\<open>PrismaClient\<close> instance, numbered in the order of allocation, or the
  \<^verbatim>\<open>Prisma.TransactionClient\<close> that the n-th call of \<^verbatim>\<open>$transaction\<close> passes to its callback.
\<close>

datatype handle = Client nat | Tx nat

datatype lifecycle = Uninitialized | Ready | Closed

datatype outcome = Committed | RolledBack

text \<open>
  JavaScript throws any value. \<^verbatim>\<open>null\<close> and \<^verbatim>\<open>undefined\<close> are kept apart from the rest because
  reading a property of them raises a \<^verbatim>\<open>TypeError\<close>; \<open>JsError name message\<close> is an error object
  whose \<^verbatim>\<open>message\<close> is a string, \<open>JsValue\<close> a value whose \<^verbatim>\<open>message\<close> property reads as
  \<^verbatim>\<open>undefined\<close>. \<open>JsUnprintable n t\<close> is the object number \<open>n\<close> whose \<^verbatim>\<open>message\<close> cannot be put
  into a template string: reading the property or converting its value to a string throws
  \<open>t\<close> (a getter that throws, a \<^verbatim>\<open>toString\<close> that throws, or a \<^verbatim>\<open>Symbol\<close>, for which the engine throws
  a \<^verbatim>\<open>TypeError\<close>).
\<close>

datatype thrown =
  JsNull | JsUndefined | JsError string string | JsValue nat | JsUnprintable nat thrown

text \<open>
  The evaluation of \<^verbatim>\<open>${error.message}\<close>: the string, or what the evaluation throws. The
  texts of the \<^verbatim>\<open>TypeError\<close> are those of V8, the engine of Node.
\<close>

definition message_of :: "thrown \<Rightarrow> thrown + string" where
  "message_of error =
     (case error of
        JsNull \<Rightarrow>
          Inl (JsError ''TypeError'' ''Cannot read properties of null (reading 'message')'')
      | JsUndefined \<Rightarrow>
          Inl (JsError ''TypeError'' ''Cannot read properties of undefined (reading 'message')'')
      | JsError _ m \<Rightarrow> Inr m
      | JsValue _ \<Rightarrow> Inr ''undefined''
      | JsUnprintable _ t \<Rightarrow> Inl t)"

text \<open>The store of revision D: \<^verbatim>\<open>interface TransactionStore\<close>, \<^verbatim>\<open>decorator.ts:786-789\<close>.\<close>

record TransactionStore =
  txClient :: handle
  transactionId :: string

datatype jsvalue = VHandle handle | VString string

text \<open>
  The own properties of the object literal \<^verbatim>\<open>{ txClient: txClientFromPrisma, transactionId }\<close>
  (\<^verbatim>\<open>decorator.ts:841\<close>), by name; a name that is absent reads as \<^verbatim>\<open>undefined\<close>.
\<close>

definition properties :: "TransactionStore \<Rightarrow> string \<rightharpoonup> jsvalue" where
  "properties s =
     [''txClient'' \<mapsto> VHandle (txClient s), ''transactionId'' \<mapsto> VString (transactionId s)]"

text \<open>What business code sees: a handle obtained from the getter, or the store read with
  \<^verbatim>\<open>prismaClientContext.getStore()\<close> as \<^verbatim>\<open>getLogPrefix\<close> does (\<^verbatim>\<open>decorator.ts:873-876\<close>).\<close>

datatype obs = Client_read handle | Store_read "TransactionStore option"

text \<open>
  The process: the \<^verbatim>\<open>PrismaClient\<close> instances allocated so far with their connection state
  (instance \<open>n\<close> is \<open>clients ! n\<close>), the number of native transactions begun, how each ended,
  the values \<^verbatim>\<open>Math.random().toString(36)\<close> returns (the \<open>drawn\<close>-th call returns
  \<open>random (drawn)\<close>), what business code has observed, and the module-level variable
  \<^verbatim>\<open>_fallbackPrismaClient\<close> of revision F.
\<close>

record world =
  clients :: "lifecycle list"
  opened :: nat
  finished :: "(nat \<times> outcome) list"
  random :: "nat \<Rightarrow> string"
  drawn :: nat
  trace :: "obs list"
  fallbackPrismaClient :: "nat option"

text \<open>
  Modelled from the spec: Prisma's \<^verbatim>\<open>new PrismaClient()\<close>, \<^verbatim>\<open>$connect()\<close> and \<^verbatim>\<open>$disconnect()\<close>,
  with the states of section 4.4: a new client is Uninitialized, connecting makes it Ready,
  disconnecting Closed.
\<close>

definition new_PrismaClient :: "world \<Rightarrow> nat \<times> world" where
  "new_PrismaClient w = (length (clients w), w\<lparr>clients := clients w @ [Uninitialized]\<rparr>)"

definition connect :: "nat \<Rightarrow> world \<Rightarrow> world" where
  "connect n w = w\<lparr>clients := (clients w)[n := Ready]\<rparr>"

definition disconnect :: "nat \<Rightarrow> world \<Rightarrow> world" where
  "disconnect n w = w\<lparr>clients := (clients w)[n := Closed]\<rparr>"

section \<open>The service and its client getter\<close>

text \<open>
  In revisions A, F and B the service is itself a \<^verbatim>\<open>PrismaClient\<close> (\<open>self\<close> is its instance number);
  \<open>hasPrismaClientMethods\<close> is what \<^verbatim>\<open>_hasPrismaClientMethods()\<close> returns (\<^verbatim>\<open>part_000:489-491\<close>):
  whether \<^verbatim>\<open>this.user.findUnique\<close> is a function. In revisions C and D the service holds its
  client in a private field.
\<close>

record PrismaService_A =
  self :: nat
  hasPrismaClientMethods :: bool

record PrismaService_D =
  internalPrismaClient :: nat

text \<open>Revision A, \<^verbatim>\<open>readme.md:43-45\<close>: \<^verbatim>\<open>return prismaClientContext.getStore() || this\<close>.
  The store, when set, is an object and so truthy.\<close>

definition client_A :: "PrismaService_A \<Rightarrow> handle option \<Rightarrow> handle" where
  "client_A this store = (case store of Some tx \<Rightarrow> tx | None \<Rightarrow> Client (self this))"

text \<open>Revision F, \<^verbatim>\<open>readme.md:376-398\<close>. The promise of \<^verbatim>\<open>$connect()\<close> is not awaited; the
  model records the connection it establishes.\<close>

definition client_F :: "PrismaService_A \<Rightarrow> handle option \<Rightarrow> world \<Rightarrow> handle \<times> world" where
  "client_F this store w =
     (case store of
        Some tx \<Rightarrow> (tx, w)
      | None \<Rightarrow>
          if \<not> hasPrismaClientMethods this then
            (case fallbackPrismaClient w of
               None \<Rightarrow>
                 (let (n, w1) = new_PrismaClient w;
                      w2 = connect n (w1\<lparr>fallbackPrismaClient := Some n\<rparr>)
                  in (Client n, w2))
             | Some n \<Rightarrow> (Client n, w))
          else (Client (self this), w))"

text \<open>Revision B, \<^verbatim>\<open>part_000:450-471\<close> (the same text at \<^verbatim>\<open>decorator.ts:493-514\<close>).\<close>

definition client_B :: "PrismaService_A \<Rightarrow> handle option \<Rightarrow> world \<Rightarrow> handle \<times> world" where
  "client_B this store w =
     (case store of
        Some tx \<Rightarrow> (tx, w)
      | None \<Rightarrow>
          if \<not> hasPrismaClientMethods this then
            (let (n, w1) = new_PrismaClient w in (Client n, w1))
          else (Client (self this), w))"

text \<open>Revision C, \<^verbatim>\<open>decorator.ts:719-728\<close>: the store is the transaction client.\<close>

definition client_C :: "PrismaService_D \<Rightarrow> handle option \<Rightarrow> handle" where
  "client_C this store =
     (case store of Some tx \<Rightarrow> tx | None \<Rightarrow> Client (internalPrismaClient this))"

text \<open>Revision D, \<^verbatim>\<open>decorator.ts:821-829\<close>.\<close>

definition client :: "PrismaService_D \<Rightarrow> TransactionStore option \<Rightarrow> handle" where
  "client this store =
     (case store of Some s \<Rightarrow> txClient s | None \<Rightarrow> Client (internalPrismaClient this))"

text \<open>
  The constructor of revisions C and D (\<^verbatim>\<open>decorator.ts:798-806\<close>): it raises when
  \<^verbatim>\<open>process.env.DATABASE_URL\<close> is unset or empty, and allocates the client otherwise.
\<close>

definition constructor :: "string option \<Rightarrow> world \<Rightarrow> (thrown + PrismaService_D) \<times> world" where
  "constructor connectionString w =
     (if connectionString = None \<or> connectionString = Some ''''
      then (Inl (JsError ''Error'' ''DATABASE_URL is not set.''), w)
      else (let (n, w1) = new_PrismaClient w in (Inr \<lparr>internalPrismaClient = n\<rparr>, w1)))"

text \<open>\<^verbatim>\<open>onModuleInit\<close> and \<^verbatim>\<open>onModuleDestroy\<close>, \<^verbatim>\<open>decorator.ts:808-818\<close>.\<close>

definition onModuleInit :: "PrismaService_D \<Rightarrow> world \<Rightarrow> world" where
  "onModuleInit this w = connect (internalPrismaClient this) w"

definition onModuleDestroy :: "PrismaService_D \<Rightarrow> world \<Rightarrow> world" where
  "onModuleDestroy this w = disconnect (internalPrismaClient this) w"

section \<open>Scoped store, native transactions and the transaction method\<close>

text \<open>
  An asynchronous function is a task: it runs in the scope of its call chain, reads the
  store of that scope, changes the process, and completes with a value or with a thrown one.
\<close>

type_synonym ('s, 'a) task = "'s option \<Rightarrow> world \<Rightarrow> (thrown + 'a) \<times> world"

text \<open>
  Modelled from the spec: Node's \<^verbatim>\<open>AsyncLocalStorage\<close>, the Scoped Context Store of section 4.1.
  \<^verbatim>\<open>getStore()\<close> is the store of the scope, the first argument of a task; \<^verbatim>\<open>run(value, fn)\<close> runs
  \<open>fn\<close> so that it and all it calls see \<open>value\<close>, and the caller's scope is as before afterwards.
\<close>

definition als_run :: "'s \<Rightarrow> ('s, 'a) task \<Rightarrow> ('s, 'a) task" where
  "als_run v fn = (\<lambda>store. fn (Some v))"

definition throw :: "thrown \<Rightarrow> ('s, 'a) task" where
  "throw e = (\<lambda>store w. (Inl e, w))"

definition try_catch :: "('s, 'a) task \<Rightarrow> (thrown \<Rightarrow> ('s, 'a) task) \<Rightarrow> ('s, 'a) task" where
  "try_catch body handler =
     (\<lambda>store w. case body store w of
        (Inl e, w') \<Rightarrow> handler e store w'
      | (Inr v, w') \<Rightarrow> (Inr v, w'))"

definition then_task :: "('s, 'a) task \<Rightarrow> ('s, 'b) task \<Rightarrow> ('s, 'b) task" where
  "then_task p q =
     (\<lambda>store w. case p store w of
        (Inl e, w') \<Rightarrow> (Inl e, w')
      | (Inr v, w') \<Rightarrow> q store w')"

text \<open>
  Modelled from the spec: Prisma's \<^verbatim>\<open>$transaction(fn)\<close>, the native primitive of section 6
  (\<^verbatim>\<open>beginInteractiveTransaction\<close>). It begins transaction number \<open>opened\<close>, runs \<open>fn\<close> with that
  transaction's client, commits when \<open>fn\<close> returns and rolls back when it throws, and passes
  the value or the thrown value on unchanged.
\<close>

definition dollar_transaction :: "(handle \<Rightarrow> ('s, 'a) task) \<Rightarrow> ('s, 'a) task" where
  "dollar_transaction fn =
     (\<lambda>store w.
        let n = opened w;
            (r, w') = fn (Tx n) store (w\<lparr>opened := Suc n\<rparr>)
        in (r, w'\<lparr>finished := finished w' @
                     [(n, case r of Inl e \<Rightarrow> RolledBack | Inr v \<Rightarrow> Committed)]\<rparr>))"

text \<open>JavaScript's \<^verbatim>\<open>substring(a, b)\<close>: the characters from \<open>min a b\<close> up to \<open>max a b\<close>,
  both clamped to the length.\<close>

definition substring :: "nat \<Rightarrow> nat \<Rightarrow> string \<Rightarrow> string" where
  "substring a b s = take (max a b - min a b) (drop (min a b) s)"

text \<open>\<^verbatim>\<open>Math.random().toString(36).substring(2, 9)\<close>, \<^verbatim>\<open>decorator.ts:834\<close> and \<^verbatim>\<open>992\<close>.\<close>

definition new_transactionId :: "world \<Rightarrow> string \<times> world" where
  "new_transactionId w = (substring 2 9 (random w (drawn w)), w\<lparr>drawn := Suc (drawn w)\<rparr>)"

text \<open>Revision A, \<^verbatim>\<open>readme.md:49-57\<close> (the same text at \<^verbatim>\<open>part_000:474-480\<close>).\<close>

definition transaction_A :: "(handle \<Rightarrow> (handle, 'a) task) \<Rightarrow> (handle, 'a) task" where
  "transaction_A callback = dollar_transaction (\<lambda>tx. als_run tx (callback tx))"

text \<open>Revision C, \<^verbatim>\<open>decorator.ts:731-744\<close>: the handler logs the thrown value itself.\<close>

definition transaction_C :: "(handle, 'a) task \<Rightarrow> (handle, 'a) task" where
  "transaction_C callback =
     dollar_transaction (\<lambda>tx. try_catch (als_run tx callback) (\<lambda>error. throw error))"

text \<open>
  The handler of revision D (\<^verbatim>\<open>decorator.ts:844-847\<close>) and of the interceptor
  (\<^verbatim>\<open>readme.md:150-155\<close>, \<^verbatim>\<open>159-162\<close>): it formats \<^verbatim>\<open>error.message\<close> into the log line, then
  throws \<open>error\<close>.
\<close>

definition log_message_and_throw :: "thrown \<Rightarrow> ('s, 'a) task" where
  "log_message_and_throw error =
     (case message_of error of Inl t \<Rightarrow> throw t | Inr m \<Rightarrow> throw error)"

text \<open>Revision D, \<^verbatim>\<open>decorator.ts:832-849\<close>.\<close>

definition transaction_D :: "(TransactionStore, 'a) task \<Rightarrow> (TransactionStore, 'a) task" where
  "transaction_D callback =
     (\<lambda>store w.
        let (transactionId, w1) = new_transactionId w
        in dollar_transaction
             (\<lambda>txClientFromPrisma.
                try_catch
                  (als_run \<lparr>txClient = txClientFromPrisma, transactionId = transactionId\<rparr> callback)
                  log_message_and_throw)
             store w1)"

text \<open>
  The body of the native callback of revision D, \<^verbatim>\<open>decorator.ts:838-847\<close>, as a function of the
  native client, the identifier and the callback.
\<close>

definition callback_in_store ::
  "handle \<Rightarrow> string \<Rightarrow> (TransactionStore, 'a) task \<Rightarrow> (TransactionStore, 'a) task" where
  "callback_in_store txClientFromPrisma ident callback =
     try_catch (als_run \<lparr>txClient = txClientFromPrisma, transactionId = ident\<rparr> callback)
       log_message_and_throw"

text \<open>
  Revision E, \<^verbatim>\<open>decorator.ts:974-999\<close>. The join path (lines 975-987) is printed in full. Of
  the create path the source prints the draw of the identifier and the call of
  \<^verbatim>\<open>$transaction\<close>; the body of the native callback is left out, lines 995-997 holding a
  comment in its place. That body is the parameter \<open>elided\<close>, a function of the native client,
  the identifier and the callback.
\<close>

definition transaction ::
  "(handle \<Rightarrow> string \<Rightarrow> (TransactionStore, 'a) task \<Rightarrow> (TransactionStore, 'a) task) \<Rightarrow>
   (TransactionStore, 'a) task \<Rightarrow> (TransactionStore, 'a) task" where
  "transaction elided callback =
     (\<lambda>store w.
        case store of
          Some existingStore \<Rightarrow> callback store w
        | None \<Rightarrow>
            (let (transactionId, w1) = new_transactionId w
             in dollar_transaction
                  (\<lambda>txClientFromPrisma. elided txClientFromPrisma transactionId callback)
                  store w1))"

text \<open>
  \<^verbatim>\<open>PrismaTransactionInterceptor.intercept\<close>, \<^verbatim>\<open>readme.md:128-164\<close>, over revision A of the
  service; \<open>next_handle\<close> is \<^verbatim>\<open>next.handle()\<close>.
\<close>

definition intercept :: "bool \<Rightarrow> (handle, 'a) task \<Rightarrow> (handle, 'a) task" where
  "intercept isTransactional next_handle =
     (if \<not> isTransactional then next_handle
      else try_catch
             (transaction_A (\<lambda>tx. try_catch next_handle log_message_and_throw))
             log_message_and_throw)"

section \<open>Business code\<close>

text \<open>
  The callbacks the examples pass to \<^verbatim>\<open>transaction\<close> (\<^verbatim>\<open>decorator.ts:909-932\<close>,
  \<^verbatim>\<open>1017-1030\<close>, \<^verbatim>\<open>1047-1057\<close>) are sequences of: a repository call through
  \<^verbatim>\<open>this.prisma.client\<close>, a read of the store for the log prefix, a call of \<^verbatim>\<open>transaction\<close>
  with another callback, a \<^verbatim>\<open>throw\<close>, a \<^verbatim>\<open>return\<close>. \<open>exec T this body\<close> runs such a body
  against the service \<open>this\<close> whose \<^verbatim>\<open>transaction\<close> method is \<open>T\<close>.
\<close>

datatype cmd = UseClient | GetStore | Transaction "cmd list" | Throw thrown | Return nat

fun exec ::
  "((TransactionStore, nat option) task \<Rightarrow> (TransactionStore, nat option) task) \<Rightarrow>
   PrismaService_D \<Rightarrow> cmd list \<Rightarrow> (TransactionStore, nat option) task" where
  "exec T this [] = (\<lambda>store w. (Inr None, w))"
| "exec T this (UseClient # rest) =
     (\<lambda>store w. exec T this rest store (w\<lparr>trace := trace w @ [Client_read (client this store)]\<rparr>))"
| "exec T this (GetStore # rest) =
     (\<lambda>store w. exec T this rest store (w\<lparr>trace := trace w @ [Store_read store]\<rparr>))"
| "exec T this (Transaction body # rest) =
     then_task (T (exec T this body)) (exec T this rest)"
| "exec T this (Throw e # rest) = throw e"
| "exec T this (Return v # rest) = (\<lambda>store w. (Inr (Some v), w))"

text \<open>An observation made in the scope of the store \<open>s\<close>: its handle, or the store itself.\<close>

definition scoped_obs :: "TransactionStore \<Rightarrow> obs \<Rightarrow> bool" where
  "scoped_obs s ob = (ob = Client_read (txClient s) \<or> ob = Store_read (Some s))"

text \<open>Nothing of the process but the observations has changed.\<close>

definition same_resources :: "world \<Rightarrow> world \<Rightarrow> bool" where
  "same_resources w w' =
     (opened w' = opened w \<and> finished w' = finished w \<and> drawn w' = drawn w \<and>
      clients w' = clients w \<and> random w' = random w \<and>
      fallbackPrismaClient w' = fallbackPrismaClient w)"

text \<open>The store a call of \<^verbatim>\<open>transaction\<close> (revision D) installs when it starts in the process
  \<open>w\<close>.\<close>

definition root_store :: "world \<Rightarrow> TransactionStore" where
  "root_store w = \<lparr>txClient = Tx (opened w), transactionId = substring 2 9 (random w (drawn w))\<rparr>"

text \<open>
  A process right after the constructor: one client, not yet connected. Its first draw of
  \<^verbatim>\<open>Math.random().toString(36)\<close> is the text of the double \<^verbatim>\<open>0.3141592653589793\<close>, the later
  ones that of \<^verbatim>\<open>0.3141592653589844\<close>: two multiples of \<^verbatim>\<open>2 ** -52\<close>, as \<^verbatim>\<open>Math.random()\<close>
  returns them, whose texts in base 36 differ and agree on their characters 2 to 8.
\<close>

definition boot :: world where
  "boot = \<lparr>clients = [Uninitialized], opened = 0, finished = [],
           random = (\<lambda>n. if n = 0 then ''0.bb5exfivbcc'' else ''0.bb5exfivbv''),
           drawn = 0, trace = [], fallbackPrismaClient = None\<rparr>"

definition service :: PrismaService_D where
  "service = \<lparr>internalPrismaClient = 0\<rparr>"

definition broken_service :: PrismaService_A where
  "broken_service = \<lparr>self = 0, hasPrismaClientMethods = False\<rparr>"

section \<open>Two call chains that interleave\<close>

text \<open>
  Node runs call chains one at a time and switches between them where they await. A chain is
  a stack of activations: the store of its scope, the code it has left, and the number of the
  native transaction whose callback it is, if it is one. A call of \<^verbatim>\<open>transaction\<close>
  (revision D, \<^verbatim>\<open>decorator.ts:832-849\<close>) first draws its identifier and calls \<^verbatim>\<open>$transaction\<close>;
  the chain then awaits the native transaction, and is resumed in the native callback with
  its client, where it installs the store and runs the callback. A value thrown by business
  code, which has no handler of its own, passes through the handler of every enclosing call
  and rolls its native transaction back. \<open>seen\<close> is what the chain's business code has
  observed, \<open>begun\<close> the stores the chain has installed, each with the number of the draw its
  identifier comes from.
\<close>

datatype activation =
  Activation (scope: "TransactionStore option") (code: "cmd list") (native: "nat option")

record chain =
  stack :: "activation list"
  awaiting :: "(nat \<times> string \<times> cmd list) option"
  seen :: "obs list"
  begun :: "(nat \<times> TransactionStore) list"

record config =
  shared :: world
  left :: chain
  right :: chain

definition settle :: "nat option \<Rightarrow> outcome \<Rightarrow> world \<Rightarrow> world" where
  "settle k oc w = (case k of None \<Rightarrow> w | Some n \<Rightarrow> w\<lparr>finished := finished w @ [(n, oc)]\<rparr>)"

fun unwind :: "activation list \<Rightarrow> world \<Rightarrow> world" where
  "unwind [] w = w"
| "unwind (a # below) w = unwind below (settle (native a) RolledBack w)"

definition advance :: "PrismaService_D \<Rightarrow> chain \<Rightarrow> world \<Rightarrow> chain \<times> world" where
  "advance this ch w =
     (case awaiting ch of
        Some (k, ident, callback) \<Rightarrow>
          (let n = opened w;
               s = \<lparr>txClient = Tx n, transactionId = ident\<rparr>
           in (ch\<lparr>awaiting := None,
                  stack := Activation (Some s) callback (Some n) # stack ch,
                  begun := begun ch @ [(k, s)]\<rparr>,
               w\<lparr>opened := Suc n\<rparr>))
      | None \<Rightarrow>
          (case stack ch of
             [] \<Rightarrow> (ch, w)
           | a # below \<Rightarrow>
               (case code a of
                  [] \<Rightarrow> (ch\<lparr>stack := below\<rparr>, settle (native a) Committed w)
                | c # rest \<Rightarrow>
                    (case c of
                       UseClient \<Rightarrow>
                         (ch\<lparr>stack := Activation (scope a) rest (native a) # below,
                             seen := seen ch @ [Client_read (client this (scope a))]\<rparr>, w)
                     | GetStore \<Rightarrow>
                         (ch\<lparr>stack := Activation (scope a) rest (native a) # below,
                             seen := seen ch @ [Store_read (scope a)]\<rparr>, w)
                     | Transaction body \<Rightarrow>
                         (let (ident, w1) = new_transactionId w
                          in (ch\<lparr>stack := Activation (scope a) rest (native a) # below,
                                 awaiting := Some (drawn w, ident, body)\<rparr>, w1))
                     | Throw e \<Rightarrow> (ch\<lparr>stack := []\<rparr>, unwind (stack ch) w)
                     | Return v \<Rightarrow> (ch\<lparr>stack := below\<rparr>, settle (native a) Committed w)))))"

text \<open>One step of the scheduler: the left chain runs when \<open>first\<close> holds, else the right one.\<close>

definition step :: "PrismaService_D \<Rightarrow> bool \<Rightarrow> config \<Rightarrow> config" where
  "step this first c =
     (if first
      then (let (ch, w) = advance this (left c) (shared c) in c\<lparr>shared := w, left := ch\<rparr>)
      else (let (ch, w) = advance this (right c) (shared c) in c\<lparr>shared := w, right := ch\<rparr>))"

fun run_schedule :: "PrismaService_D \<Rightarrow> bool list \<Rightarrow> config \<Rightarrow> config" where
  "run_schedule this [] c = c"
| "run_schedule this (first # schedule) c = run_schedule this schedule (step this first c)"

definition root_chain :: "cmd list \<Rightarrow> chain" where
  "root_chain callback =
     \<lparr>stack = [Activation None [Transaction callback] None], awaiting = None,
      seen = [], begun = []\<rparr>"

definition concurrent_roots :: "world \<Rightarrow> cmd list \<Rightarrow> cmd list \<Rightarrow> config" where
  "concurrent_roots w callback1 callback2 =
     \<lparr>shared = w, left = root_chain callback1, right = root_chain callback2\<rparr>"

text \<open>A chain run on its own for \<open>n\<close> steps, and what it can reach.\<close>

fun run_chain :: "PrismaService_D \<Rightarrow> nat \<Rightarrow> chain \<times> world \<Rightarrow> chain \<times> world" where
  "run_chain this 0 cw = cw"
| "run_chain this (Suc n) cw = run_chain this n (advance this (fst cw) (snd cw))"

definition runs_to :: "PrismaService_D \<Rightarrow> chain \<times> world \<Rightarrow> chain \<times> world \<Rightarrow> bool" where
  "runs_to this cw cw' = (\<exists>n. run_chain this n cw = cw')"

text \<open>
  A chain about to run \<open>body\<close> in its top activation, the chain once that activation is left
  (by a throw, which unwinds the whole stack, or by its end), and what leaving does to the
  process.
\<close>

definition at_body ::
  "TransactionStore option \<Rightarrow> cmd list \<Rightarrow> nat option \<Rightarrow> activation list \<Rightarrow> obs list \<Rightarrow>
   (nat \<times> TransactionStore) list \<Rightarrow> chain" where
  "at_body store body k below sn bg =
     \<lparr>stack = Activation store body k # below, awaiting = None, seen = sn, begun = bg\<rparr>"

definition after_body ::
  "bool \<Rightarrow> activation list \<Rightarrow> obs list \<Rightarrow> (nat \<times> TransactionStore) list \<Rightarrow> chain" where
  "after_body failed below sn bg =
     \<lparr>stack = (if failed then [] else below), awaiting = None, seen = sn, begun = bg\<rparr>"

definition leave ::
  "bool \<Rightarrow> TransactionStore option \<Rightarrow> nat option \<Rightarrow> activation list \<Rightarrow> world \<Rightarrow> world" where
  "leave failed store k below w =
     (if failed then unwind (Activation store [] k # below) w else settle k Committed w)"

text \<open>The stores a chain has installed, and what it has seen of stores.\<close>

definition stores :: "chain \<Rightarrow> TransactionStore set" where
  "stores ch = snd ` set (begun ch)"

definition own_obs :: "chain \<Rightarrow> obs \<Rightarrow> bool" where
  "own_obs ch ob =
     (case ob of
        Store_read None \<Rightarrow> True
      | Store_read (Some s) \<Rightarrow> s \<in> stores ch
      | Client_read (Client n) \<Rightarrow> True
      | Client_read (Tx n) \<Rightarrow> Tx n \<in> txClient ` stores ch)"

definition draws :: "chain \<Rightarrow> nat set" where
  "draws ch = fst ` set (begun ch) \<union> (case awaiting ch of None \<Rightarrow> {} | Some (k, i, b) \<Rightarrow> {k})"

definition chain_ok :: "world \<Rightarrow> chain \<Rightarrow> bool" where
  "chain_ok w ch =
     ((\<forall>(k, s) \<in> set (begun ch).
         k < drawn w \<and> transactionId s = substring 2 9 (random w k) \<and>
         (\<exists>n < opened w. txClient s = Tx n)) \<and>
      (\<forall>(k, i, b) \<in> set_option (awaiting ch). k < drawn w \<and> i = substring 2 9 (random w k)) \<and>
      (\<forall>a \<in> set (stack ch). \<forall>s \<in> set_option (scope a). s \<in> stores ch) \<and>
      (\<forall>ob \<in> set (seen ch). own_obs ch ob))"

definition apart :: "chain \<Rightarrow> chain \<Rightarrow> bool" where
  "apart ch ch' =
     (draws ch \<inter> draws ch' = {} \<and> txClient ` stores ch \<inter> txClient ` stores ch' = {})"

definition isolated :: "config \<Rightarrow> bool" where
  "isolated c =
     (chain_ok (shared c) (left c) \<and> chain_ok (shared c) (right c) \<and> apart (left c) (right c))"

section \<open>The class decorator\<close>

text \<open>
  \<^verbatim>\<open>withTransactionClient\<close>, \<^verbatim>\<open>src/decorator.ts:3-43\<close>. An argument is \<^verbatim>\<open>undefined\<close>, \<^verbatim>\<open>null\<close>,
  another primitive, or an object; for an object the flag says whether \<^verbatim>\<open>typeof x.$transaction === 'function'\<close>.
  A receiver is an object with a \<^verbatim>\<open>prisma\<close> property; the receiver \<open>None\<close> is \<^verbatim>\<open>this\<close> being
  \<^verbatim>\<open>undefined\<close>, as it is when a method is called detached from its object.
\<close>

datatype jsarg = ArgUndefined | ArgNull | ArgPrimitive nat | ArgObject nat bool

record receiver =
  prisma :: jsarg

text \<open>A method: the text \<^verbatim>\<open>toString()\<close> returns for it, and what calling it does.\<close>

record jsmethod =
  source :: string
  applyTo :: "receiver option \<Rightarrow> jsarg list \<Rightarrow> thrown + jsarg"

datatype property = Method jsmethod | Wrapped jsmethod | Value jsarg

definition is_transaction_arg :: "jsarg \<Rightarrow> bool" where
  "is_transaction_arg a = (case a of ArgObject n has_transaction \<Rightarrow> has_transaction | _ \<Rightarrow> False)"

text \<open>The loop of lines 15-20, started at \<open>i = n - 1\<close>: the last argument that qualifies.\<close>

fun txArgIndex_from :: "jsarg list \<Rightarrow> nat \<Rightarrow> int" where
  "txArgIndex_from args 0 = - 1"
| "txArgIndex_from args (Suc i) =
     (if is_transaction_arg (args ! i) then int i else txArgIndex_from args i)"

definition this_prisma :: "receiver option \<Rightarrow> thrown + jsarg" where
  "this_prisma this =
     (case this of
        None \<Rightarrow>
          Inl (JsError ''TypeError'' ''Cannot read properties of undefined (reading 'prisma')'')
      | Some r \<Rightarrow> Inr (prisma r))"

text \<open>\<^verbatim>\<open>indexOf\<close>, \<^verbatim>\<open>lastIndexOf\<close> and \<^verbatim>\<open>slice\<close> of JavaScript strings.\<close>

definition indexOf :: "string \<Rightarrow> char \<Rightarrow> int" where
  "indexOf s c = (if c \<in> set s then int (length (takeWhile (\<lambda>x. x \<noteq> c) s)) else - 1)"

definition lastIndexOf :: "string \<Rightarrow> char \<Rightarrow> int" where
  "lastIndexOf s c =
     (if c \<in> set s then int (length s) - 1 - int (length (takeWhile (\<lambda>x. x \<noteq> c) (rev s)))
      else - 1)"

definition slice :: "int \<Rightarrow> int \<Rightarrow> string \<Rightarrow> string" where
  "slice a b s =
     (let len = int (length s);
          from = (if a < 0 then max (len + a) 0 else min a len);
          to = (if b < 0 then max (len + b) 0 else min b len)
      in take (nat (to - from)) (drop (nat from) s))"

text \<open>
  \<^verbatim>\<open>replace(/^function.*?\(/, 'function(')\<close>, line 26: when the text starts with
  \<^verbatim>\<open>function\<close> and a parenthesis opens on the same line, what stands between them is dropped.
\<close>

definition replace_function_head :: "string \<Rightarrow> string" where
  "replace_function_head s =
     (if take 8 s = ''function'' then
        (let t = drop 8 s;
             skipped = takeWhile (\<lambda>c. c \<noteq> CHR ''('' \<and> c \<noteq> CHR 0x0A \<and> c \<noteq> CHR 0x0D) t;
             rest = drop (length skipped) t
         in if rest \<noteq> [] \<and> hd rest = CHR ''('' then ''function('' @ tl rest else s)
      else s)"

function decimal :: "nat \<Rightarrow> string" where
  "decimal n =
     (if n < 10 then [char_of (48 + n)] else decimal (n div 10) @ [char_of (48 + n mod 10)])"
  by pat_completeness auto
termination
  by (relation "measure id") auto

declare decimal.simps [simp del]

text \<open>Lines 26-29: the text handed to the \<^verbatim>\<open>Function\<close> constructor as the body.\<close>

definition newMethodBody :: "jsmethod \<Rightarrow> int \<Rightarrow> string" where
  "newMethodBody originalMethod txArgIndex =
     (let functionString = replace_function_head (source originalMethod);
          methodBody = slice (indexOf functionString CHR ''{'' + 1)
                             (lastIndexOf functionString CHR ''}'') functionString;
          txDeclaration = ''const tx = '' @
                          (if txArgIndex > - 1 then ''prismaClient'' else ''this.prisma'') @
                          '' as any;''
      in txDeclaration @ [CHR 0x0A] @ methodBody)"

text \<open>
  The function that replaces \<^verbatim>\<open>descriptor.value\<close>, lines 12-36. The \<^verbatim>\<open>Function\<close> constructor
  parses its parameter names and body when it is called and throws a \<^verbatim>\<open>SyntaxError\<close> for a text
  that is not ECMAScript; \<open>parses\<close> is the engine's parser.
\<close>

definition wrapper ::
  "(string list \<Rightarrow> string \<Rightarrow> bool) \<Rightarrow> jsmethod \<Rightarrow> receiver option \<Rightarrow> jsarg list \<Rightarrow> thrown + jsarg" where
  "wrapper parses originalMethod this args =
     (let txArgIndex = txArgIndex_from args (length args)
      in case (if txArgIndex > - 1 then Inr (args ! nat txArgIndex) else this_prisma this) of
           Inl e \<Rightarrow> Inl e
         | Inr prismaClient \<Rightarrow>
             if parses (map (\<lambda>i. ''arg'' @ decimal i) [0..<length args])
                  (newMethodBody originalMethod txArgIndex)
             then applyTo originalMethod this args
             else Inl (JsError ''SyntaxError'' ''Unexpected identifier''))"

text \<open>Lines 6-40: every own property of the prototype that is a function, but the
  constructor, is replaced.\<close>

definition withTransactionClient :: "(string \<times> property) list \<Rightarrow> (string \<times> property) list" where
  "withTransactionClient prototype =
     map (\<lambda>(key, p).
            case p of
              Method m \<Rightarrow> if key \<noteq> ''constructor'' then (key, Wrapped m) else (key, p)
            | _ \<Rightarrow> (key, p))
         prototype"

text \<open>Calling the property \<open>key\<close> of an object with this prototype.\<close>

definition invoke ::
  "(string list \<Rightarrow> string \<Rightarrow> bool) \<Rightarrow> (string \<times> property) list \<Rightarrow> string \<Rightarrow>
   receiver option \<Rightarrow> jsarg list \<Rightarrow> thrown + jsarg" where
  "invoke parses prototype key this args =
     (case map_of prototype key of
        Some (Method m) \<Rightarrow> applyTo m this args
      | Some (Wrapped m) \<Rightarrow> wrapper parses m this args
      | _ \<Rightarrow> Inl (JsError ''TypeError'' ''is not a function''))"

text \<open>
  A parser that accepts every text but one whose first statement is the declaration of line
  28; an ECMAScript parser accepts neither form of that declaration, since \<^verbatim>\<open>as any\<close> is
  TypeScript.
\<close>

definition rejects_cast :: "string list \<Rightarrow> string \<Rightarrow> bool" where
  "rejects_cast names body =
     (take 30 body \<noteq> ''const tx = this.prisma as any;'' \<and>
      take 31 body \<noteq> ''const tx = prismaClient as any;'')"

definition example_method :: jsmethod where
  "example_method =
     \<lparr>source = ''find(id) { return id }'',
      applyTo = (\<lambda>this args. Inr (case args of [] \<Rightarrow> ArgUndefined | a # rest \<Rightarrow> a))\<rparr>"

text \<open>A service of revision A whose \<^verbatim>\<open>this\<close> works as a client.\<close>

definition service_A :: PrismaService_A where
  "service_A = \<lparr>self = 0, hasPrismaClientMethods = True\<rparr>"

text \<open>Two root calls started together, the scheduler alternating between them for eight steps.\<close>

definition race :: config where
  "race = run_schedule service [True, False, True, False, True, False, True, False]
            (concurrent_roots boot [GetStore, UseClient] [GetStore, UseClient])"

section \<open>A call of the transaction method\<close>

lemmas eval_defs =
  transaction_def transaction_D_def transaction_A_def callback_in_store_def
  new_transactionId_def dollar_transaction_def
  try_catch_def als_run_def log_message_and_throw_def throw_def then_task_def boot_def
  service_def service_A_def broken_service_def substring_def message_of_def client_def
  client_A_def client_B_def client_F_def new_PrismaClient_def connect_def intercept_def

text \<open>The join path of revision E, whatever the body the source leaves out.\<close>

lemma transaction_join: "transaction elided callback (Some s) w = callback (Some s) w"
  by (simp add: transaction_def)

text \<open>With the native callback of revision D in the place of the comment, a root call of
  revision E is a call of revision D.\<close>

lemma transaction_root:
  "transaction callback_in_store callback None w = transaction_D callback None w"
  by (simp add: transaction_def transaction_D_def callback_in_store_def)

lemma transaction_D_unfold:
  "transaction_D callback store w =
     (case callback (Some (root_store w)) (w\<lparr>drawn := Suc (drawn w), opened := Suc (opened w)\<rparr>) of
        (Inl e, w') \<Rightarrow>
          (case message_of e of
             Inl t \<Rightarrow> (Inl t, w'\<lparr>finished := finished w' @ [(opened w, RolledBack)]\<rparr>)
           | Inr m \<Rightarrow> (Inl e, w'\<lparr>finished := finished w' @ [(opened w, RolledBack)]\<rparr>))
      | (Inr v, w') \<Rightarrow> (Inr v, w'\<lparr>finished := finished w' @ [(opened w, Committed)]\<rparr>))"
  by (simp add: transaction_D_def new_transactionId_def dollar_transaction_def try_catch_def
      als_run_def log_message_and_throw_def throw_def root_store_def Let_def
      split: prod.splits sum.splits)

text \<open>
  Business code that runs in the scope of a store, its calls of \<^verbatim>\<open>transaction\<close> being those
  of revision E, opens no native transaction, draws no identifier, and observes that store
  only, however deep the calls nest: it runs as if every call of \<^verbatim>\<open>transaction\<close> were a
  call of its callback.
\<close>

lemma exec_joined:
  "exec (transaction elided) this body (Some s) w = (r, w') \<Longrightarrow>
     same_resources w w' \<and> (\<exists>obs. trace w' = trace w @ obs \<and> list_all (scoped_obs s) obs)"
proof (induction "transaction elided :: (TransactionStore, nat option) task \<Rightarrow> _" this body
    arbitrary: w r w' rule: exec.induct)
  case (1 this)
  then show ?case by (auto simp: same_resources_def)
next
  case (2 this rest)
  then show ?case by (fastforce simp: scoped_obs_def client_def same_resources_def)
next
  case (3 this rest)
  then show ?case by (fastforce simp: scoped_obs_def same_resources_def)
next
  case (4 this body rest)
  obtain r1 w1 where b: "exec (transaction elided) this body (Some s) w = (r1, w1)"
    by (cases "exec (transaction elided) this body (Some s) w") auto
  from "4.hyps"(1)[OF b] obtain obs1 where
    s1: "same_resources w w1" and t1: "trace w1 = trace w @ obs1"
    and o1: "list_all (scoped_obs s) obs1"
    by auto
  show ?case
  proof (cases r1)
    case (Inl e)
    with "4.prems" b have "w' = w1"
      by (simp add: then_task_def transaction_join)
    with s1 t1 o1 show ?thesis by auto
  next
    case (Inr v)
    with "4.prems" b have c: "exec (transaction elided) this rest (Some s) w1 = (r, w')"
      by (simp add: then_task_def transaction_join)
    from "4.hyps"(2)[OF c] obtain obs2 where
      s2: "same_resources w1 w'" and t2: "trace w' = trace w1 @ obs2"
      and o2: "list_all (scoped_obs s) obs2"
      by auto
    from s1 s2 have "same_resources w w'" by (simp add: same_resources_def)
    moreover from t1 t2 have "trace w' = trace w @ (obs1 @ obs2)" by simp
    moreover from o1 o2 have "list_all (scoped_obs s) (obs1 @ obs2)" by simp
    ultimately show ?thesis by blast
  qed
next
  case (5 this e rest)
  then show ?case by (auto simp: throw_def same_resources_def)
next
  case (6 this v rest)
  then show ?case by (auto simp: same_resources_def)
qed

lemma exec_joined_direct:
  "exec (transaction elided) this body (Some s) w = exec (\<lambda>callback. callback) this body (Some s) w"
proof (induction "transaction elided :: (TransactionStore, nat option) task \<Rightarrow> _" this body
    arbitrary: w rule: exec.induct)
  case (4 this body rest)
  show ?case
  proof (cases "exec (\<lambda>callback. callback) this body (Some s) w")
    case (Pair r1 w1)
    with "4.hyps"(1)[of w] "4.hyps"(2)[of w1] show ?thesis
      by (cases r1) (simp_all add: then_task_def transaction_join)
  qed
qed simp_all

lemma root_run:
  assumes "transaction_D (exec (transaction elided) this body) store w = (r, w')"
  shows "opened w' = Suc (opened w) \<and> drawn w' = Suc (drawn w) \<and> clients w' = clients w \<and>
         (\<exists>obs. trace w' = trace w @ obs \<and> list_all (scoped_obs (root_store w)) obs) \<and>
         finished w' = finished w @ [(opened w, if isl r then RolledBack else Committed)]"
proof -
  let ?w1 = "w\<lparr>drawn := Suc (drawn w), opened := Suc (opened w)\<rparr>"
  obtain r1 w1 where
    b: "exec (transaction elided) this body (Some (root_store w)) ?w1 = (r1, w1)"
    by (cases "exec (transaction elided) this body (Some (root_store w)) ?w1") auto
  from exec_joined[OF b] obtain obs where
    s: "same_resources ?w1 w1" and t: "trace w1 = trace ?w1 @ obs" and
    o: "list_all (scoped_obs (root_store w)) obs"
    by auto
  from assms b have
    w': "w' = w1\<lparr>finished := finished w1 @ [(opened w, if isl r1 then RolledBack else Committed)]\<rparr>"
    and r: "isl r = isl r1"
    by (auto simp: transaction_D_unfold split: sum.splits)
  from s t o w' r show ?thesis
    by (auto simp: same_resources_def)
qed

text \<open>
  Revision E joins: a call of \<^verbatim>\<open>transaction\<close> in the scope of a store runs its callback in that
  scope, whatever the source leaves out; and with the native callback of revision D in the
  place of the comment, a root call with any body of business code opens one native
  transaction, in which every observation, at any depth, is of the root's store.
\<close>

lemma transaction_joins:
  "transaction elided callback (Some s) w0 = callback (Some s) w0 \<and>
   exec (transaction elided) this body (Some s) w0
     = exec (\<lambda>callback. callback) this body (Some s) w0 \<and>
   (let (r, w') = transaction callback_in_store
                    (exec (transaction callback_in_store) this body) None w
    in opened w' = Suc (opened w) \<and> drawn w' = Suc (drawn w) \<and>
       finished w' = finished w @ [(opened w, if isl r then RolledBack else Committed)] \<and>
       (\<exists>obs. trace w' = trace w @ obs \<and> list_all (scoped_obs (root_store w)) obs))"
proof -
  obtain r w' where
    e: "transaction_D (exec (transaction callback_in_store) this body) None w = (r, w')"
    by (cases "transaction_D (exec (transaction callback_in_store) this body) None w") auto
  from root_run[OF e] e show ?thesis
    by (simp add: transaction_join transaction_root exec_joined_direct)
qed

text \<open>
  C1. \<^emph>\<open>When \<^verbatim>\<open>transaction\<close> is called while a store is visible, the callback is invoked
  directly, with no new native transaction and no new store, so that a nested call graph
  opens one native transaction and every nested call sees the root's store.\<close>
  Revision A (\<^verbatim>\<open>readme.md:49-57\<close>) does not read the store: a callback that calls
  \<^verbatim>\<open>transaction\<close> again opens a second native transaction, and the inner callback gets the
  second transaction's client where the outer one got the first's. Revision E does what the
  claim says (\<open>transaction_joins\<close>).
\<close>

theorem transaction_A_nested_opens_second:
  "transaction_A
     (\<lambda>tx store w.
        transaction_A
          (\<lambda>tx' store' w'. (Inr (client_A service_A store, client_A service_A store'), w'))
          store w)
     None boot
   = (Inr (Tx 0, Tx 1), boot\<lparr>opened := 2, finished := [(1, Committed), (0, Committed)]\<rparr>)"
  by (simp add: eval_defs)

text \<open>So does revision D, where the inner call also draws an identifier of its own.\<close>

lemma transaction_D_nested_opens_second:
  "transaction_D (exec transaction_D service [GetStore, Transaction [GetStore]]) None boot
   = (Inr None,
      boot\<lparr>opened := 2, drawn := 2, finished := [(1, Committed), (0, Committed)],
           trace := [Store_read (Some \<lparr>txClient = Tx 0, transactionId = ''bb5exfi''\<rparr>),
                     Store_read (Some \<lparr>txClient = Tx 1, transactionId = ''bb5exfi''\<rparr>)]\<rparr>)"
  by (simp add: eval_defs)

section \<open>Errors of the callback\<close>

text \<open>
  A thrown value whose \<^verbatim>\<open>message\<close> can be formatted leaves a call of \<^verbatim>\<open>transaction\<close>
  (revision D) as it left the callback, and the native transaction is rolled back.
\<close>

lemma callback_error_propagates:
  assumes "callback (Some (root_store w)) (w\<lparr>drawn := Suc (drawn w), opened := Suc (opened w)\<rparr>)
             = (Inl e, w1)"
    and "message_of e = Inr m"
  shows "transaction_D callback store w
           = (Inl e, w1\<lparr>finished := finished w1 @ [(opened w, RolledBack)]\<rparr>)"
  using assms by (simp add: transaction_D_unfold)

text \<open>Any other thrown value is replaced by what the formatting of its message throws.\<close>

lemma callback_error_replaced:
  assumes "callback (Some (root_store w)) (w\<lparr>drawn := Suc (drawn w), opened := Suc (opened w)\<rparr>)
             = (Inl e, w1)"
    and "message_of e = Inl t"
  shows "transaction_D callback store w
           = (Inl t, w1\<lparr>finished := finished w1 @ [(opened w, RolledBack)]\<rparr>)"
  using assms by (simp add: transaction_D_unfold)

text \<open>
  C2. \<^emph>\<open>If the callback throws or rejects at any nesting depth, the same error is re-raised
  unchanged to the caller, and the native transaction rolls back.\<close>
  The handlers of revision D (\<^verbatim>\<open>decorator.ts:844-847\<close>) and of the interceptor
  (\<^verbatim>\<open>readme.md:150-155\<close>) build their log line from \<^verbatim>\<open>error.message\<close> before they throw
  \<open>error\<close> again. When the callback rejects with \<^verbatim>\<open>null\<close> or \<^verbatim>\<open>undefined\<close>, that read raises
  a \<^verbatim>\<open>TypeError\<close>, and the caller gets the \<^verbatim>\<open>TypeError\<close> in place of the value thrown: from a
  callback that throws \<^verbatim>\<open>null\<close> itself, from one that throws it in a nested call, and from
  a handler behind the interceptor. The transaction is rolled back all the same.
\<close>

theorem null_rejection_is_replaced:
  "transaction_D (throw JsNull :: (TransactionStore, nat option) task) None boot
     = (Inl (JsError ''TypeError'' ''Cannot read properties of null (reading 'message')''),
        boot\<lparr>opened := 1, drawn := 1, finished := [(0, RolledBack)]\<rparr>) \<and>
   transaction_D (exec transaction_D service [Transaction [Throw JsNull]]) None boot
     = (Inl (JsError ''TypeError'' ''Cannot read properties of null (reading 'message')''),
        boot\<lparr>opened := 2, drawn := 2, finished := [(1, RolledBack), (0, RolledBack)]\<rparr>) \<and>
   intercept True (throw JsUndefined :: (handle, nat) task) None boot
     = (Inl (JsError ''TypeError'' ''Cannot read properties of undefined (reading 'message')''),
        boot\<lparr>opened := 1, finished := [(0, RolledBack)]\<rparr>)"
  by (simp add: eval_defs)

section \<open>The getter\<close>

text \<open>
  C3. \<^emph>\<open>Called with no store in scope while the default client is not yet connected, the
  getter fails with a lifecycle error and never substitutes a second client.\<close>
  It does not fail. After the constructor and before \<^verbatim>\<open>onModuleInit\<close>, a read of
  \<^verbatim>\<open>prisma.client\<close> outside a transaction returns the unconnected client to the repository
  call that asked for it (revision D); in revision B, when \<^verbatim>\<open>this\<close> lacks the client's
  methods, it returns a new one.
\<close>

theorem getter_returns_uninitialized_client:
  "clients boot ! internalPrismaClient service = Uninitialized \<and>
   client service None = Client (internalPrismaClient service) \<and>
   exec transaction_D service [UseClient] None boot
     = (Inr None, boot\<lparr>trace := [Client_read (Client (internalPrismaClient service))]\<rparr>) \<and>
   clients boot ! self broken_service = Uninitialized \<and>
   fst (client_B broken_service None boot) = Client 1"
  by (simp add: eval_defs)

text \<open>
  C3 as amended. \<^emph>\<open>Called with no store in scope while the default client is not yet
  connected, the getter raises no lifecycle error: the read returns a client.\<close> The getters
  of revisions A, C and D are functions of the service and the store alone, and return the
  service's own client in whatever state it is; those of revisions B
  (\<^verbatim>\<open>part_000:450-471\<close>) and F (\<^verbatim>\<open>readme.md:376-398\<close>) return a client in every process \<open>w\<close>,
  the service's own one when \<^verbatim>\<open>this\<close> has the client's methods. Which client they return
  otherwise is not part of the statement.
\<close>

theorem getter_returns_a_client:
  "client_A a None = Client (self a) \<and>
   client_C this None = Client (internalPrismaClient this) \<and>
   client this None = Client (internalPrismaClient this) \<and>
   (\<exists>n. fst (client_B a None w) = Client n) \<and>
   (\<exists>n. fst (client_F a None w) = Client n) \<and>
   client_B (a\<lparr>hasPrismaClientMethods := True\<rparr>) None w = (Client (self a), w) \<and>
   client_F (a\<lparr>hasPrismaClientMethods := True\<rparr>) None w = (Client (self a), w)"
  by (simp add: client_A_def client_F_def client_B_def client_def client_C_def
      new_PrismaClient_def Let_def split: option.splits)

text \<open>
  C4. \<^emph>\<open>The getter returns the transactional handle of the store when one is visible in the
  scope, and the default client otherwise.\<close> Revisions A (\<^verbatim>\<open>readme.md:43-45\<close>), C and D, and
  the handle a repository call of business code gets.
\<close>

theorem client_resolves_scope:
  "client_A a (Some tx) = tx \<and>
   client_A a None = Client (self a) \<and>
   client_C this (Some tx) = tx \<and>
   client_C this None = Client (internalPrismaClient this) \<and>
   client this (Some s) = txClient s \<and>
   client this None = Client (internalPrismaClient this) \<and>
   exec T this (UseClient # rest) store w
     = exec T this rest store
         (w\<lparr>trace := trace w @
            [Client_read (case store of Some s \<Rightarrow> txClient s
                                      | None \<Rightarrow> Client (internalPrismaClient this))]\<rparr>)"
  by (simp add: client_def client_C_def client_A_def)

section \<open>Lifecycle of the default client\<close>

text \<open>
  In revisions C and D the client is allocated by the constructor, connected by
  \<^verbatim>\<open>onModuleInit\<close> and disconnected by \<^verbatim>\<open>onModuleDestroy\<close>; business code, its getter reads and
  its transactions leave every client as it is.
\<close>

lemma constructor_allocates:
  "constructor (Some ''postgres://db'') w
     = (Inr \<lparr>internalPrismaClient = length (clients w)\<rparr>,
        w\<lparr>clients := clients w @ [Uninitialized]\<rparr>)"
  by (simp add: constructor_def new_PrismaClient_def)

lemma lifecycle_calls:
  "n < length (clients w) \<Longrightarrow>
     clients (onModuleInit \<lparr>internalPrismaClient = n\<rparr> w) ! n = Ready \<and>
     clients (onModuleDestroy \<lparr>internalPrismaClient = n\<rparr>
                (onModuleInit \<lparr>internalPrismaClient = n\<rparr> w)) ! n = Closed"
  by (simp add: onModuleInit_def onModuleDestroy_def connect_def disconnect_def)

lemma transaction_clients:
  assumes "\<And>store w r w'. callback store w = (r, w') \<Longrightarrow> clients w' = clients w"
    and "transaction_D callback store w = (r, w')"
  shows "clients w' = clients w"
proof -
  let ?w1 = "w\<lparr>drawn := Suc (drawn w), opened := Suc (opened w)\<rparr>"
  obtain r1 w1 where b: "callback (Some (root_store w)) ?w1 = (r1, w1)"
    by (cases "callback (Some (root_store w)) ?w1") auto
  from assms(1)[OF b] have "clients w1 = clients w" by simp
  with assms(2) b show ?thesis
    by (auto simp: transaction_D_unfold split: sum.splits)
qed

lemma exec_clients:
  "exec transaction_D this body store w = (r, w') \<Longrightarrow> clients w' = clients w"
proof (induction "transaction_D :: (TransactionStore, nat option) task \<Rightarrow> _" this body
    arbitrary: store w r w' rule: exec.induct)
  case (4 this body rest)
  obtain r1 w1 where b: "transaction_D (exec transaction_D this body) store w = (r1, w1)"
    by (cases "transaction_D (exec transaction_D this body) store w") auto
  have c1: "clients w1 = clients w"
    by (rule transaction_clients[OF _ b]) (rule "4.hyps"(1))
  show ?case
  proof (cases r1)
    case (Inl e)
    with "4.prems" b c1 show ?thesis by (simp add: then_task_def)
  next
    case (Inr v)
    with "4.prems" b have "exec transaction_D this rest store w1 = (r, w')"
      by (simp add: then_task_def)
    from "4.hyps"(2)[OF this] c1 show ?thesis by simp
  qed
qed (auto simp: throw_def)

text \<open>
  C6. \<^emph>\<open>The default client's lifecycle is driven by \<^verbatim>\<open>onModuleInit\<close> and \<^verbatim>\<open>onModuleDestroy\<close>
  alone; a read of the getter never connects, disconnects or allocates.\<close>
  The getters of revisions B (\<^verbatim>\<open>part_000:463-469\<close>) and F (\<^verbatim>\<open>readme.md:386-395\<close>) do: read
  outside a transaction on a service whose \<^verbatim>\<open>this\<close> lacks the client's methods, B allocates a
  client, and F allocates one, connects it and keeps it in a module variable.
\<close>

theorem fallback_getter_allocates:
  "client_B broken_service None boot
     = (Client 1, boot\<lparr>clients := [Uninitialized, Uninitialized]\<rparr>) \<and>
   client_F broken_service None boot
     = (Client 1, boot\<lparr>clients := [Uninitialized, Ready], fallbackPrismaClient := Some 1\<rparr>)"
  by (simp add: eval_defs)

text \<open>
  C7. \<^emph>\<open>Two reads of the getter outside any transaction return the same default client,
  never a freshly constructed one.\<close>
  Revision B (\<^verbatim>\<open>part_000:450-471\<close>) returns a new client at each read when \<^verbatim>\<open>this\<close> lacks the
  client's methods: two reads give two clients, neither of them the service itself.
\<close>

theorem fallback_getter_returns_fresh_clients:
  "(let (h, w) = client_B broken_service None boot;
        (h', w') = client_B broken_service None w
    in (h, h')) = (Client 1, Client 2) \<and>
   Client (self broken_service) = Client 0"
  by (simp add: eval_defs)

section \<open>The store\<close>

text \<open>
  C8. \<^emph>\<open>The store in scope holds a transactional handle, a short identifier and a depth, an
  integer that is 1 on the create path; nested joins never change or replace the store.\<close>
  The store a call of \<^verbatim>\<open>transaction\<close> installs (\<^verbatim>\<open>decorator.ts:841\<close>) has two properties;
  \<^verbatim>\<open>depth\<close> is not one of them.
\<close>

theorem store_has_no_depth:
  "transaction_D (exec transaction_D service [GetStore]) None boot
     = (Inr None,
        boot\<lparr>opened := 1, drawn := 1, finished := [(0, Committed)],
             trace := [Store_read (Some \<lparr>txClient = Tx 0, transactionId = ''bb5exfi''\<rparr>)]\<rparr>) \<and>
   properties \<lparr>txClient = Tx 0, transactionId = ''bb5exfi''\<rparr> ''depth'' = None"
  by (simp add: eval_defs properties_def)

lemma length_substring: "length (substring a b s) \<le> max a b - min a b"
  by (simp add: substring_def)

text \<open>
  C8 as amended. \<^emph>\<open>The store in scope holds a transactional handle and an identifier of at
  most seven characters, and no depth. On the create path (\<^verbatim>\<open>decorator.ts:832-849\<close>) it is
  built from the client of the native transaction just begun and a newly drawn identifier,
  and the callback runs in its scope; on the join path (\<^verbatim>\<open>decorator.ts:975-987\<close>) the
  callback runs in the scope it was called in, so that nested calls, however deep, read the
  store without changing or replacing it.\<close>
  The third conjunct is the whole of the create path: what the callback is given, and what
  becomes of its outcome (the handler of the create path formats \<^verbatim>\<open>error.message\<close>).
\<close>

theorem store_is_handle_and_identifier:
  "dom (properties s) = {''txClient'', ''transactionId''} \<and>
   length (substring 2 9 (random w (drawn w))) \<le> 7 \<and>
   transaction_D callback store w =
     (case callback
             (Some \<lparr>txClient = Tx (opened w),
                    transactionId = substring 2 9 (random w (drawn w))\<rparr>)
             (w\<lparr>drawn := Suc (drawn w), opened := Suc (opened w)\<rparr>) of
        (Inr v, w') \<Rightarrow> (Inr v, w'\<lparr>finished := finished w' @ [(opened w, Committed)]\<rparr>)
      | (Inl e, w') \<Rightarrow>
          (case message_of e of
             Inl t \<Rightarrow> (Inl t, w'\<lparr>finished := finished w' @ [(opened w, RolledBack)]\<rparr>)
           | Inr m \<Rightarrow> (Inl e, w'\<lparr>finished := finished w' @ [(opened w, RolledBack)]\<rparr>))) \<and>
   transaction elided callback (Some s) w0 = callback (Some s) w0 \<and>
   exec (transaction elided) this body (Some s) w0
     = exec (\<lambda>callback. callback) this body (Some s) w0 \<and>
   (let (r, w') = exec (transaction elided) this body (Some s) w0
    in same_resources w0 w' \<and>
       (\<exists>obs. trace w' = trace w0 @ obs \<and> list_all (scoped_obs s) obs))"
proof -
  obtain r w' where e: "exec (transaction elided) this body (Some s) w0 = (r, w')"
    by (cases "exec (transaction elided) this body (Some s) w0") auto
  have "length (substring 2 9 (random w (drawn w))) \<le> 7"
    using length_substring[of 2 9 "random w (drawn w)"] by simp
  moreover have "dom (properties s) = {''txClient'', ''transactionId''}"
    by (auto simp: properties_def)
  moreover have "transaction_D callback store w =
     (case callback
             (Some \<lparr>txClient = Tx (opened w),
                    transactionId = substring 2 9 (random w (drawn w))\<rparr>)
             (w\<lparr>drawn := Suc (drawn w), opened := Suc (opened w)\<rparr>) of
        (Inr v, w') \<Rightarrow> (Inr v, w'\<lparr>finished := finished w' @ [(opened w, Committed)]\<rparr>)
      | (Inl e, w') \<Rightarrow>
          (case message_of e of
             Inl t \<Rightarrow> (Inl t, w'\<lparr>finished := finished w' @ [(opened w, RolledBack)]\<rparr>)
           | Inr m \<Rightarrow> (Inl e, w'\<lparr>finished := finished w' @ [(opened w, RolledBack)]\<rparr>)))"
    by (simp add: transaction_D_unfold root_store_def split: prod.splits sum.splits)
  moreover have "same_resources w0 w' \<and>
       (\<exists>obs. trace w' = trace w0 @ obs \<and> list_all (scoped_obs s) obs)"
    by (rule exec_joined[OF e])
  ultimately show ?thesis
    using e exec_joined_direct[of elided this body s w0]
    by (simp add: transaction_join)
qed

section \<open>The decorated method\<close>

lemma newMethodBody_this:
  "\<not> i > - 1 \<Longrightarrow> take 30 (newMethodBody m i) = ''const tx = this.prisma as any;''"
  by (simp add: newMethodBody_def Let_def)

lemma newMethodBody_arg:
  "i > - 1 \<Longrightarrow> take 31 (newMethodBody m i) = ''const tx = prismaClient as any;''"
  by (simp add: newMethodBody_def Let_def)

lemma rejects_cast_newMethodBody: "\<not> rejects_cast names (newMethodBody m i)"
  by (cases "i > - 1") (simp_all add: rejects_cast_def newMethodBody_this newMethodBody_arg)

text \<open>
  Whatever the method and its arguments, the body handed to the \<^verbatim>\<open>Function\<close> constructor
  starts with the declaration of line 28. With a parser that accepts no such text, the
  replacement never reaches \<^verbatim>\<open>originalMethod.apply\<close>.
\<close>

lemma wrapper_rejected:
  assumes "\<And>names body. parses names body \<Longrightarrow> rejects_cast names body"
  shows "wrapper parses m this args =
           (if \<not> txArgIndex_from args (length args) > - 1 \<and> this = None
            then Inl (JsError ''TypeError''
                        ''Cannot read properties of undefined (reading 'prisma')'')
            else Inl (JsError ''SyntaxError'' ''Unexpected identifier''))"
proof -
  have "\<not> parses names (newMethodBody m i)" for names i
    using assms rejects_cast_newMethodBody by blast
  then show ?thesis
    by (auto simp: wrapper_def Let_def this_prisma_def split: option.splits sum.splits)
qed

text \<open>Were the text accepted, the replacement would return what the method returns.\<close>

lemma wrapper_accepted:
  assumes "parses (map (\<lambda>i. ''arg'' @ decimal i) [0..<length args])
             (newMethodBody m (txArgIndex_from args (length args)))"
    and "txArgIndex_from args (length args) > - 1 \<or> this \<noteq> None"
  shows "wrapper parses m this args = applyTo m this args"
  using assms
  by (auto simp: wrapper_def Let_def this_prisma_def split: option.splits sum.splits)

lemma invoke_decorated:
  assumes "map_of prototype key = Some (Method m)" "key \<noteq> ''constructor''"
  shows "invoke parses (withTransactionClient prototype) key this args
           = wrapper parses m this args"
proof -
  have "map_of (withTransactionClient prototype) key = Some (Wrapped m)"
    using assms
    by (induction prototype)
      (auto simp: withTransactionClient_def split: property.splits if_splits)
  then show ?thesis by (simp add: invoke_def)
qed

text \<open>
  C9. \<^emph>\<open>A method of a class decorated with \<^verbatim>\<open>withTransactionClient\<close> returns what the
  undecorated method returns on the same receiver and arguments.\<close>
  The class \<^verbatim>\<open>class Repo { find(id) { return id } }\<close>, its receiver holding a client and
  the argument 7: undecorated, \<^verbatim>\<open>find\<close> returns 7; decorated, it throws the \<^verbatim>\<open>SyntaxError\<close> of
  the \<^verbatim>\<open>Function\<close> constructor, whose body starts \<^verbatim>\<open>const tx = this.prisma as any;\<close>.
\<close>

theorem decorated_method_throws:
  "invoke rejects_cast
     (withTransactionClient
        [(''constructor'', Method example_method), (''find'', Method example_method)])
     ''find'' (Some \<lparr>prisma = ArgObject 0 True\<rparr>) [ArgPrimitive 7]
     = Inl (JsError ''SyntaxError'' ''Unexpected identifier'') \<and>
   invoke rejects_cast
     [(''constructor'', Method example_method), (''find'', Method example_method)]
     ''find'' (Some \<lparr>prisma = ArgObject 0 True\<rparr>) [ArgPrimitive 7]
     = Inr (ArgPrimitive 7)"
  by (simp add: invoke_def withTransactionClient_def wrapper_def Let_def is_transaction_arg_def
      this_prisma_def rejects_cast_newMethodBody example_method_def)

section \<open>A chain run alone is a run of the business code\<close>

text \<open>
  The steps of a chain are the steps of \<open>exec\<close> over revision D: started on a body in the
  store \<open>store\<close>, the chain reaches the end of that body, or unwinds when the body throws,
  with the observations of \<open>exec\<close> in \<open>seen\<close> and with the process \<open>exec\<close> ends in (\<open>exec\<close>
  writes its observations to \<open>trace\<close>, the chain to \<open>seen\<close>).
\<close>

lemma run_chain_add: "run_chain this (m + n) cw = run_chain this n (run_chain this m cw)"
  by (induction m arbitrary: cw) simp_all

lemma settle_trace: "settle k oc (w\<lparr>trace := t\<rparr>) = (settle k oc w)\<lparr>trace := t\<rparr>"
  by (cases w) (simp add: settle_def split: option.splits)

lemma runs_to_refl: "runs_to this cw cw"
  unfolding runs_to_def by (rule exI[of _ 0]) simp

lemma runs_to_step:
  assumes "advance this ch w = cw1" "runs_to this cw1 cw'"
  shows "runs_to this (ch, w) cw'"
proof -
  from assms(2) obtain n where "run_chain this n cw1 = cw'" by (auto simp: runs_to_def)
  with assms(1) have "run_chain this (Suc n) (ch, w) = cw'" by simp
  then show ?thesis unfolding runs_to_def by blast
qed

lemma runs_to_trans:
  assumes "runs_to this cw cw1" "runs_to this cw1 cw2"
  shows "runs_to this cw cw2"
proof -
  from assms obtain m n where "run_chain this m cw = cw1" "run_chain this n cw1 = cw2"
    by (auto simp: runs_to_def)
  then have "run_chain this (m + n) cw = cw2" by (simp add: run_chain_add)
  then show ?thesis unfolding runs_to_def by blast
qed

lemma advance_nil:
  "advance this (at_body store [] k below sn bg) w
     = (after_body False below sn bg, settle k Committed w)"
  by (simp add: advance_def at_body_def after_body_def)

lemma advance_return:
  "advance this (at_body store (Return v # rest) k below sn bg) w
     = (after_body False below sn bg, settle k Committed w)"
  by (simp add: advance_def at_body_def after_body_def)

lemma advance_throw:
  "advance this (at_body store (Throw e # rest) k below sn bg) w
     = (after_body True below sn bg, unwind (Activation store [] k # below) w)"
  by (simp add: advance_def at_body_def after_body_def)

lemma advance_use:
  "advance this (at_body store (UseClient # rest) k below sn bg) w
     = (at_body store rest k below (sn @ [Client_read (client this store)]) bg, w)"
  by (simp add: advance_def at_body_def)

lemma advance_get:
  "advance this (at_body store (GetStore # rest) k below sn bg) w
     = (at_body store rest k below (sn @ [Store_read store]) bg, w)"
  by (simp add: advance_def at_body_def)

lemma advance_root:
  "runs_to this (at_body store (Transaction body # rest) k below sn bg, w)
     (at_body (Some (root_store w)) body (Some (opened w)) (Activation store rest k # below) sn
        (bg @ [(drawn w, root_store w)]),
      w\<lparr>drawn := Suc (drawn w), opened := Suc (opened w)\<rparr>)"
proof -
  have "run_chain this (Suc (Suc 0)) (at_body store (Transaction body # rest) k below sn bg, w)
     = (at_body (Some (root_store w)) body (Some (opened w)) (Activation store rest k # below) sn
        (bg @ [(drawn w, root_store w)]),
      w\<lparr>drawn := Suc (drawn w), opened := Suc (opened w)\<rparr>)"
    by (simp add: advance_def at_body_def new_transactionId_def root_store_def Let_def)
  then show ?thesis unfolding runs_to_def by blast
qed

lemma drawn_opened_trace:
  "w\<lparr>trace := t, drawn := d, opened := n\<rparr> = w\<lparr>drawn := d, opened := n, trace := t\<rparr>"
  by (cases w) simp

lemma root_store_trace: "root_store (w\<lparr>trace := t\<rparr>) = root_store w"
  by (simp add: root_store_def)

lemma leave_root:
  "leave failed (Some s) (Some n) (Activation store rest k # below) (w\<lparr>trace := tm\<rparr>)
     = (if failed
        then leave True store k below
               (w\<lparr>finished := finished w @ [(n, RolledBack)], trace := tm\<rparr>)
        else w\<lparr>finished := finished w @ [(n, Committed)], trace := tm\<rparr>)"
  by (cases w) (simp add: leave_def settle_def)

lemma chain_runs_transaction:
  assumes IH: "\<And>store w r w' k below sn bg.
      exec transaction_D this body store w = (r, w') \<Longrightarrow>
      \<exists>obs bg'. trace w' = trace w @ obs \<and>
        runs_to this (at_body store body k below sn bg, w\<lparr>trace := tm\<rparr>)
          (after_body (isl r) below (sn @ obs) (bg @ bg'),
           leave (isl r) store k below (w'\<lparr>trace := tm\<rparr>))"
    and t: "transaction_D (exec transaction_D this body) store w = (r1, w1)"
  shows "\<exists>obs bg'. trace w1 = trace w @ obs \<and>
     runs_to this (at_body store (Transaction body # rest) k below sn bg, w\<lparr>trace := tm\<rparr>)
       (if isl r1
        then (after_body True below (sn @ obs) (bg @ bg'),
              leave True store k below (w1\<lparr>trace := tm\<rparr>))
        else (at_body store rest k below (sn @ obs) (bg @ bg'), w1\<lparr>trace := tm\<rparr>))"
proof -
  let ?w2 = "w\<lparr>drawn := Suc (drawn w), opened := Suc (opened w)\<rparr>"
  let ?s = "root_store w"
  let ?below = "Activation store rest k # below"
  obtain r2 w2 where e: "exec transaction_D this body (Some ?s) ?w2 = (r2, w2)"
    by (cases "exec transaction_D this body (Some ?s) ?w2") auto
  from t e have
    r1: "isl r1 = isl r2" and
    w1: "w1 = w2\<lparr>finished := finished w2 @ [(opened w, if isl r2 then RolledBack else Committed)]\<rparr>"
    by (auto simp: transaction_D_unfold split: sum.splits)
  from IH[OF e, of "Some (opened w)" ?below sn "bg @ [(drawn w, ?s)]"] obtain obs bg' where
    tr: "trace w2 = trace ?w2 @ obs" and
    rt: "runs_to this
           (at_body (Some ?s) body (Some (opened w)) ?below sn (bg @ [(drawn w, ?s)]),
            ?w2\<lparr>trace := tm\<rparr>)
           (after_body (isl r2) ?below (sn @ obs) ((bg @ [(drawn w, ?s)]) @ bg'),
            leave (isl r2) (Some ?s) (Some (opened w)) ?below (w2\<lparr>trace := tm\<rparr>))"
    by blast
  have start: "runs_to this (at_body store (Transaction body # rest) k below sn bg, w\<lparr>trace := tm\<rparr>)
       (at_body (Some ?s) body (Some (opened w)) ?below sn (bg @ [(drawn w, ?s)]),
        ?w2\<lparr>trace := tm\<rparr>)"
    using advance_root[of this store body rest k below sn bg "w\<lparr>trace := tm\<rparr>"]
    by (simp add: root_store_trace drawn_opened_trace)
  have "runs_to this (at_body store (Transaction body # rest) k below sn bg, w\<lparr>trace := tm\<rparr>)
       (if isl r1
        then (after_body True below (sn @ obs) (bg @ ((drawn w, ?s) # bg')),
              leave True store k below (w1\<lparr>trace := tm\<rparr>))
        else (at_body store rest k below (sn @ obs) (bg @ ((drawn w, ?s) # bg')), w1\<lparr>trace := tm\<rparr>))"
    using runs_to_trans[OF start rt] r1 w1
    by (cases "isl r2")
       (simp_all add: leave_root after_body_def at_body_def)
  moreover from tr w1 have "trace w1 = trace w @ obs" by simp
  ultimately show ?thesis by blast
qed

lemma chain_runs_body:
  "exec transaction_D this body store w = (r, w') \<Longrightarrow>
   \<exists>obs bg'. trace w' = trace w @ obs \<and>
     runs_to this (at_body store body k below sn bg, w\<lparr>trace := tm\<rparr>)
       (after_body (isl r) below (sn @ obs) (bg @ bg'),
        leave (isl r) store k below (w'\<lparr>trace := tm\<rparr>))"
proof (induction "transaction_D :: (TransactionStore, nat option) task \<Rightarrow> _" this body
    arbitrary: store w r w' k below sn bg rule: exec.induct)
  case (1 this)
  then have "r = Inr None" "w' = w" by auto
  moreover have "runs_to this (at_body store [] k below sn bg, w\<lparr>trace := tm\<rparr>)
       (after_body False below sn bg, settle k Committed (w\<lparr>trace := tm\<rparr>))"
    by (rule runs_to_step[OF advance_nil runs_to_refl])
  ultimately show ?case
    by (auto simp: leave_def intro!: exI[of _ "[]"])
next
  case (2 this rest)
  let ?ob = "Client_read (client this store)"
  from "2.prems" have e: "exec transaction_D this rest store (w\<lparr>trace := trace w @ [?ob]\<rparr>) = (r, w')"
    by simp
  from "2.hyps"[OF e, of k below "sn @ [?ob]" bg] obtain obs bg' where
    t: "trace w' = trace w @ [?ob] @ obs" and
    rt: "runs_to this (at_body store rest k below (sn @ [?ob]) bg, w\<lparr>trace := tm\<rparr>)
       (after_body (isl r) below ((sn @ [?ob]) @ obs) (bg @ bg'),
        leave (isl r) store k below (w'\<lparr>trace := tm\<rparr>))"
    by auto
  have "runs_to this (at_body store (UseClient # rest) k below sn bg, w\<lparr>trace := tm\<rparr>)
       (after_body (isl r) below (sn @ (?ob # obs)) (bg @ bg'),
        leave (isl r) store k below (w'\<lparr>trace := tm\<rparr>))"
    using runs_to_step[OF advance_use rt] by simp
  with t show ?case by auto
next
  case (3 this rest)
  let ?ob = "Store_read store"
  from "3.prems" have e: "exec transaction_D this rest store (w\<lparr>trace := trace w @ [?ob]\<rparr>) = (r, w')"
    by simp
  from "3.hyps"[OF e, of k below "sn @ [?ob]" bg] obtain obs bg' where
    t: "trace w' = trace w @ [?ob] @ obs" and
    rt: "runs_to this (at_body store rest k below (sn @ [?ob]) bg, w\<lparr>trace := tm\<rparr>)
       (after_body (isl r) below ((sn @ [?ob]) @ obs) (bg @ bg'),
        leave (isl r) store k below (w'\<lparr>trace := tm\<rparr>))"
    by auto
  have "runs_to this (at_body store (GetStore # rest) k below sn bg, w\<lparr>trace := tm\<rparr>)
       (after_body (isl r) below (sn @ (?ob # obs)) (bg @ bg'),
        leave (isl r) store k below (w'\<lparr>trace := tm\<rparr>))"
    using runs_to_step[OF advance_get rt] by simp
  with t show ?case by auto
next
  case (4 this body rest)
  obtain r1 w1 where t: "transaction_D (exec transaction_D this body) store w = (r1, w1)"
    by (cases "transaction_D (exec transaction_D this body) store w") auto
  from chain_runs_transaction[of this body tm store w r1 w1 rest k below sn bg, OF "4.hyps"(1) t]
  obtain obs1 bg1 where
    tr1: "trace w1 = trace w @ obs1" and
    rt1: "runs_to this (at_body store (Transaction body # rest) k below sn bg, w\<lparr>trace := tm\<rparr>)
       (if isl r1
        then (after_body True below (sn @ obs1) (bg @ bg1),
              leave True store k below (w1\<lparr>trace := tm\<rparr>))
        else (at_body store rest k below (sn @ obs1) (bg @ bg1), w1\<lparr>trace := tm\<rparr>))"
    by blast
  show ?case
  proof (cases r1)
    case (Inl e)
    with "4.prems" t have "r = Inl e" "w' = w1" by (simp_all add: then_task_def)
    with Inl tr1 rt1 show ?thesis by auto
  next
    case (Inr v)
    with "4.prems" t have e: "exec transaction_D this rest store w1 = (r, w')"
      by (simp add: then_task_def)
    from "4.hyps"(2)[OF e, of k below "sn @ obs1" "bg @ bg1"] obtain obs2 bg2 where
      tr2: "trace w' = trace w1 @ obs2" and
      rt2: "runs_to this (at_body store rest k below (sn @ obs1) (bg @ bg1), w1\<lparr>trace := tm\<rparr>)
        (after_body (isl r) below ((sn @ obs1) @ obs2) ((bg @ bg1) @ bg2),
         leave (isl r) store k below (w'\<lparr>trace := tm\<rparr>))"
      by blast
    from Inr rt1 have "runs_to this (at_body store (Transaction body # rest) k below sn bg, w\<lparr>trace := tm\<rparr>)
        (at_body store rest k below (sn @ obs1) (bg @ bg1), w1\<lparr>trace := tm\<rparr>)"
      by simp
    from runs_to_trans[OF this rt2]
    have "runs_to this (at_body store (Transaction body # rest) k below sn bg, w\<lparr>trace := tm\<rparr>)
        (after_body (isl r) below (sn @ (obs1 @ obs2)) (bg @ (bg1 @ bg2)),
         leave (isl r) store k below (w'\<lparr>trace := tm\<rparr>))"
      by simp
    moreover from tr1 tr2 have "trace w' = trace w @ (obs1 @ obs2)" by simp
    ultimately show ?thesis by blast
  qed
next
  case (5 this e rest)
  then have "r = Inl e" "w' = w" by (auto simp: throw_def)
  moreover have "runs_to this (at_body store (Throw e # rest) k below sn bg, w\<lparr>trace := tm\<rparr>)
       (after_body True below sn bg, unwind (Activation store [] k # below) (w\<lparr>trace := tm\<rparr>))"
    by (rule runs_to_step[OF advance_throw runs_to_refl])
  ultimately show ?case
    by (auto simp: leave_def intro!: exI[of _ "[]"])
next
  case (6 this v rest)
  then have "r = Inr (Some v)" "w' = w" by auto
  moreover have "runs_to this (at_body store (Return v # rest) k below sn bg, w\<lparr>trace := tm\<rparr>)
       (after_body False below sn bg, settle k Committed (w\<lparr>trace := tm\<rparr>))"
    by (rule runs_to_step[OF advance_return runs_to_refl])
  ultimately show ?case
    by (auto simp: leave_def intro!: exI[of _ "[]"])
qed

lemma chain_agrees_with_exec:
  assumes "exec transaction_D this [Transaction callback] None w = (r, w')"
  shows "\<exists>obs bg'. trace w' = trace w @ obs \<and>
           runs_to this (root_chain callback, w)
             (\<lparr>stack = [], awaiting = None, seen = obs, begun = bg'\<rparr>, w'\<lparr>trace := trace w\<rparr>)"
proof -
  from chain_runs_body[OF assms, of None "[]" "[]" "[]" "trace w"] obtain obs bg' where
    t: "trace w' = trace w @ obs" and
    rt: "runs_to this (at_body None [Transaction callback] None [] [] [], w\<lparr>trace := trace w\<rparr>)
       (after_body (isl r) [] ([] @ obs) ([] @ bg'),
        leave (isl r) None None [] (w'\<lparr>trace := trace w\<rparr>))"
    by blast
  have "leave (isl r) None None [] (w'\<lparr>trace := trace w\<rparr>) = w'\<lparr>trace := trace w\<rparr>"
    by (simp add: leave_def settle_def)
  with rt have "runs_to this (root_chain callback, w)
             (\<lparr>stack = [], awaiting = None, seen = obs, begun = bg'\<rparr>, w'\<lparr>trace := trace w\<rparr>)"
    by (simp add: at_body_def after_body_def root_chain_def)
  with t show ?thesis by blast
qed

section \<open>Isolation of two roots\<close>

lemma unwind_resources:
  "opened (unwind st w) = opened w \<and> drawn (unwind st w) = drawn w \<and> random (unwind st w) = random w"
  by (induction st arbitrary: w) (auto simp: settle_def split: option.splits)

lemma settle_resources:
  "opened (settle k oc w) = opened w \<and> drawn (settle k oc w) = drawn w \<and> random (settle k oc w) = random w"
  by (auto simp: settle_def split: option.splits)

lemma advance_grows:
  assumes "advance this ch w = (ch', w')"
  shows "opened w \<le> opened w' \<and> drawn w \<le> drawn w' \<and> random w' = random w"
  using assms
  by (auto simp: advance_def Let_def new_transactionId_def unwind_resources settle_resources
      split: option.splits list.splits cmd.splits prod.splits)

lemma chain_ok_mono:
  assumes "chain_ok w ch" "opened w \<le> opened w'" "drawn w \<le> drawn w'" "random w' = random w"
  shows "chain_ok w' ch"
  using assms unfolding chain_ok_def
  by (fastforce split: prod.splits)

lemma advance_begun:
  assumes "advance this ch w = (ch', w')"
  shows "begun ch' = begun ch \<or>
         (\<exists>k i b. awaiting ch = Some (k, i, b) \<and> opened w' = Suc (opened w) \<and>
            begun ch' = begun ch @ [(k, \<lparr>txClient = Tx (opened w), transactionId = i\<rparr>)])"
  using assms
  by (auto simp: advance_def Let_def new_transactionId_def
      split: option.splits list.splits cmd.splits prod.splits)

lemma advance_awaiting:
  assumes "advance this ch w = (ch', w')"
  shows "awaiting ch' = None \<or>
         (awaiting ch = None \<and> drawn w' = Suc (drawn w) \<and>
          (\<exists>b. awaiting ch' = Some (drawn w, substring 2 9 (random w (drawn w)), b)))"
  using assms
  by (auto simp: advance_def Let_def new_transactionId_def
      split: option.splits list.splits cmd.splits prod.splits)

lemma advance_stack:
  assumes "advance this ch w = (ch', w')" "a' \<in> set (stack ch')" "scope a' = Some s"
  shows "(\<exists>a \<in> set (stack ch). scope a = Some s) \<or> s \<in> stores ch'"
  using assms
  by (auto simp: advance_def Let_def new_transactionId_def stores_def
      split: option.splits list.splits cmd.splits prod.splits)

lemma advance_seen:
  assumes "advance this ch w = (ch', w')"
  shows "seen ch' = seen ch \<or>
         (\<exists>a \<in> set (stack ch). seen ch' = seen ch @ [Client_read (client this (scope a))] \<or>
                                seen ch' = seen ch @ [Store_read (scope a)])"
  using assms
  by (auto simp: advance_def Let_def new_transactionId_def
      split: option.splits list.splits cmd.splits prod.splits)

lemma advance_stores:
  assumes "advance this ch w = (ch', w')"
  shows "stores ch \<subseteq> stores ch'"
  using advance_begun[OF assms] by (auto simp: stores_def)

lemma own_obs_mono: "stores ch \<subseteq> stores ch' \<Longrightarrow> own_obs ch ob \<Longrightarrow> own_obs ch' ob"
  by (auto simp: own_obs_def split: obs.splits option.splits handle.splits)

lemma own_obs_scope:
  assumes "\<And>s. sc = Some s \<Longrightarrow> s \<in> stores ch"
  shows "own_obs ch (Client_read (client this sc)) \<and> own_obs ch (Store_read sc)"
proof (cases sc)
  case None
  then show ?thesis by (simp add: own_obs_def client_def)
next
  case (Some s)
  with assms have "s \<in> stores ch" by simp
  with Some show ?thesis
    by (cases "txClient s") (auto simp: own_obs_def client_def intro: rev_image_eqI)
qed

lemma chain_okI:
  assumes "\<And>k s. (k, s) \<in> set (begun ch) \<Longrightarrow>
             k < drawn w \<and> transactionId s = substring 2 9 (random w k) \<and>
             (\<exists>n < opened w. txClient s = Tx n)"
    and "\<And>k i b. awaiting ch = Some (k, i, b) \<Longrightarrow> k < drawn w \<and> i = substring 2 9 (random w k)"
    and "\<And>a s. a \<in> set (stack ch) \<Longrightarrow> scope a = Some s \<Longrightarrow> s \<in> stores ch"
    and "\<And>ob. ob \<in> set (seen ch) \<Longrightarrow> own_obs ch ob"
  shows "chain_ok w ch"
  unfolding chain_ok_def
proof (intro conjI ballI)
  fix x assume "x \<in> set (begun ch)"
  with assms(1)[of "fst x" "snd x"] show "case x of (k, s) \<Rightarrow> k < drawn w \<and> transactionId s = substring 2 9 (random w k) \<and> (\<exists>n < opened w. txClient s = Tx n)"
    by (simp add: split_beta)
next
  fix x assume "x \<in> set_option (awaiting ch)"
  then have "awaiting ch = Some (fst x, fst (snd x), snd (snd x))" by simp
  from assms(2)[OF this] show "case x of (k, i, b) \<Rightarrow> k < drawn w \<and> i = substring 2 9 (random w k)"
    by (simp add: split_beta)
next
  fix a s assume "a \<in> set (stack ch)" "s \<in> set_option (scope a)"
  with assms(3)[of a s] show "s \<in> stores ch" by simp
next
  fix ob assume "ob \<in> set (seen ch)"
  with assms(4) show "own_obs ch ob" by simp
qed

lemma chain_ok_begun:
  "chain_ok w ch \<Longrightarrow> (k, s) \<in> set (begun ch) \<Longrightarrow>
     k < drawn w \<and> transactionId s = substring 2 9 (random w k) \<and> (\<exists>n < opened w. txClient s = Tx n)"
  unfolding chain_ok_def by blast

lemma chain_ok_awaiting:
  "chain_ok w ch \<Longrightarrow> awaiting ch = Some (k, i, b) \<Longrightarrow> k < drawn w \<and> i = substring 2 9 (random w k)"
  unfolding chain_ok_def by simp

lemma chain_ok_stack:
  "chain_ok w ch \<Longrightarrow> a \<in> set (stack ch) \<Longrightarrow> scope a = Some s \<Longrightarrow> s \<in> stores ch"
  unfolding chain_ok_def by simp

lemma chain_ok_seen:
  "chain_ok w ch \<Longrightarrow> ob \<in> set (seen ch) \<Longrightarrow> own_obs ch ob"
  unfolding chain_ok_def by simp

lemma advance_own:
  assumes ok: "chain_ok w ch" and adv: "advance this ch w = (ch', w')"
  shows "chain_ok w' ch'"
proof (rule chain_okI)
  note grows = advance_grows[OF adv]
  note sub = advance_stores[OF adv]
  { fix k s assume m: "(k, s) \<in> set (begun ch')"
    from advance_begun[OF adv]
    show "k < drawn w' \<and> transactionId s = substring 2 9 (random w' k) \<and>
          (\<exists>n < opened w'. txClient s = Tx n)"
    proof
      assume "begun ch' = begun ch"
      with m chain_ok_begun[OF ok, of k s] grows show ?thesis
        by (auto intro: less_le_trans)
    next
      assume "\<exists>k i b. awaiting ch = Some (k, i, b) \<and> opened w' = Suc (opened w) \<and>
              begun ch' = begun ch @ [(k, \<lparr>txClient = Tx (opened w), transactionId = i\<rparr>)]"
      then obtain k0 i b where a: "awaiting ch = Some (k0, i, b)" and o: "opened w' = Suc (opened w)"
        and e: "begun ch' = begun ch @ [(k0, \<lparr>txClient = Tx (opened w), transactionId = i\<rparr>)]"
        by blast
      from m e have "(k, s) \<in> set (begun ch) \<or>
                     (k = k0 \<and> s = \<lparr>txClient = Tx (opened w), transactionId = i\<rparr>)"
        by auto
      then show ?thesis
      proof
        assume "(k, s) \<in> set (begun ch)"
        with chain_ok_begun[OF ok, of k s] grows show ?thesis
          by (auto intro: less_le_trans)
      next
        assume n: "k = k0 \<and> s = \<lparr>txClient = Tx (opened w), transactionId = i\<rparr>"
        with chain_ok_awaiting[OF ok a] grows o show ?thesis
          by (auto intro: less_le_trans)
      qed
    qed }
  { fix k i b assume "awaiting ch' = Some (k, i, b)"
    with advance_awaiting[OF adv] grows
    show "k < drawn w' \<and> i = substring 2 9 (random w' k)" by auto }
  { fix a s assume "a \<in> set (stack ch')" "scope a = Some s"
    from advance_stack[OF adv this] show "s \<in> stores ch'"
    proof
      assume "\<exists>a \<in> set (stack ch). scope a = Some s"
      then obtain a0 where "a0 \<in> set (stack ch)" "scope a0 = Some s" by blast
      from chain_ok_stack[OF ok this] sub show ?thesis by blast
    qed }
  { fix ob assume m: "ob \<in> set (seen ch')"
    from advance_seen[OF adv] show "own_obs ch' ob"
    proof
      assume "seen ch' = seen ch"
      with m chain_ok_seen[OF ok] own_obs_mono[OF sub] show ?thesis by auto
    next
      assume "\<exists>a \<in> set (stack ch). seen ch' = seen ch @ [Client_read (client this (scope a))] \<or>
                                seen ch' = seen ch @ [Store_read (scope a)]"
      then obtain a where am: "a \<in> set (stack ch)"
        and e: "seen ch' = seen ch @ [Client_read (client this (scope a))] \<or>
                seen ch' = seen ch @ [Store_read (scope a)]"
        by blast
      have "own_obs ch (Client_read (client this (scope a))) \<and> own_obs ch (Store_read (scope a))"
        by (rule own_obs_scope) (rule chain_ok_stack[OF ok am])
      with own_obs_mono[OF sub] have
        "own_obs ch' (Client_read (client this (scope a)))" "own_obs ch' (Store_read (scope a))"
        by blast+
      moreover from m e have "ob \<in> set (seen ch) \<or> ob = Client_read (client this (scope a)) \<or>
                              ob = Store_read (scope a)"
        by auto
      ultimately show ?thesis
        using chain_ok_seen[OF ok] own_obs_mono[OF sub] by blast
    qed }
qed

lemma draws_bound: "chain_ok w ch \<Longrightarrow> k \<in> draws ch \<Longrightarrow> k < drawn w"
  by (cases "awaiting ch") (auto simp: draws_def dest: chain_ok_begun chain_ok_awaiting)

lemma handles_bound: "chain_ok w ch \<Longrightarrow> h \<in> txClient ` stores ch \<Longrightarrow> \<exists>n < opened w. h = Tx n"
  by (auto simp: stores_def dest: chain_ok_begun)

lemma advance_draws:
  assumes "advance this ch w = (ch', w')"
  shows "draws ch' \<subseteq> draws ch \<union> {drawn w}"
  using advance_begun[OF assms] advance_awaiting[OF assms]
  by (auto simp: draws_def)

lemma advance_stores_new:
  assumes "advance this ch w = (ch', w')" "s \<in> stores ch'"
  shows "s \<in> stores ch \<or> txClient s = Tx (opened w)"
  using advance_begun[OF assms(1)] assms(2)
  by (force simp: stores_def)

lemma advance_handles:
  assumes "advance this ch w = (ch', w')"
  shows "txClient ` stores ch' \<subseteq> txClient ` stores ch \<union> {Tx (opened w)}"
  using advance_stores_new[OF assms] by blast

lemma advance_apart:
  assumes "chain_ok w other" "apart ch other" "advance this ch w = (ch', w')"
  shows "apart ch' other"
proof -
  have d: "drawn w \<notin> draws other"
    using draws_bound[OF assms(1)] by blast
  have h: "Tx (opened w) \<notin> txClient ` stores other"
    using handles_bound[OF assms(1)] by blast
  from assms(2) have d0: "draws ch \<inter> draws other = {}"
    and h0: "txClient ` stores ch \<inter> txClient ` stores other = {}"
    by (simp_all add: apart_def)
  have "draws ch' \<inter> draws other = {}"
  proof -
    have "draws ch' \<inter> draws other \<subseteq> (draws ch \<union> {drawn w}) \<inter> draws other"
      using advance_draws[OF assms(3)] by blast
    also have "\<dots> = {}" using d d0 by blast
    finally show ?thesis by simp
  qed
  moreover have "txClient ` stores ch' \<inter> txClient ` stores other = {}"
  proof -
    have "txClient ` stores ch' \<inter> txClient ` stores other
            \<subseteq> (txClient ` stores ch \<union> {Tx (opened w)}) \<inter> txClient ` stores other"
      using advance_handles[OF assms(3)] by blast
    also have "\<dots> = {}" using h h0 by blast
    finally show ?thesis by simp
  qed
  ultimately show ?thesis by (simp add: apart_def)
qed

lemma apart_sym: "apart ch ch' \<Longrightarrow> apart ch' ch"
  by (auto simp: apart_def)

lemma step_isolated:
  assumes "isolated c"
  shows "isolated (step this first c)"
proof (cases first)
  case True
  obtain ch w where a: "advance this (left c) (shared c) = (ch, w)"
    by (cases "advance this (left c) (shared c)") auto
  from assms have l: "chain_ok (shared c) (left c)" and r: "chain_ok (shared c) (right c)"
    and ap: "apart (left c) (right c)"
    by (auto simp: isolated_def)
  from advance_grows[OF a] r have "chain_ok w (right c)"
    by (auto intro: chain_ok_mono)
  with advance_own[OF l a] advance_apart[OF r ap a] True a show ?thesis
    by (simp add: isolated_def step_def)
next
  case False
  obtain ch w where a: "advance this (right c) (shared c) = (ch, w)"
    by (cases "advance this (right c) (shared c)") auto
  from assms have l: "chain_ok (shared c) (left c)" and r: "chain_ok (shared c) (right c)"
    and ap: "apart (right c) (left c)"
    by (auto simp: isolated_def intro: apart_sym)
  from advance_grows[OF a] l have "chain_ok w (left c)"
    by (auto intro: chain_ok_mono)
  with advance_own[OF r a] apart_sym[OF advance_apart[OF l ap a]] False a show ?thesis
    by (simp add: isolated_def step_def)
qed

lemma run_schedule_isolated: "isolated c \<Longrightarrow> isolated (run_schedule this schedule c)"
  by (induction schedule arbitrary: c) (auto intro: step_isolated)

lemma concurrent_roots_isolated: "isolated (concurrent_roots w callback1 callback2)"
  by (simp add: isolated_def concurrent_roots_def root_chain_def chain_ok_def apart_def
      draws_def stores_def)

lemma step_random: "random (shared (step this first c)) = random (shared c)"
proof (cases first)
  case True
  obtain ch w where a: "advance this (left c) (shared c) = (ch, w)"
    by (cases "advance this (left c) (shared c)") auto
  with True advance_grows[OF a] show ?thesis by (simp add: step_def)
next
  case False
  obtain ch w where a: "advance this (right c) (shared c) = (ch, w)"
    by (cases "advance this (right c) (shared c)") auto
  with False advance_grows[OF a] show ?thesis by (simp add: step_def)
qed

lemma run_schedule_random: "random (shared (run_schedule this schedule c)) = random (shared c)"
  by (induction schedule arbitrary: c) (simp_all add: step_random)

lemma own_store: "own_obs ch (Store_read (Some s)) = (s \<in> stores ch)"
  by (simp add: own_obs_def)

lemma own_handle: "own_obs ch (Client_read (Tx n)) = (Tx n \<in> txClient ` stores ch)"
  by (simp add: own_obs_def)

lemma seen_store: "chain_ok w ch \<Longrightarrow> Store_read (Some s) \<in> set (seen ch) \<Longrightarrow> s \<in> stores ch"
  using chain_ok_seen[of w ch "Store_read (Some s)"] by (simp add: own_store)

lemma seen_handle:
  "chain_ok w ch \<Longrightarrow> Client_read (Tx n) \<in> set (seen ch) \<Longrightarrow> Tx n \<in> txClient ` stores ch"
  using chain_ok_seen[of w ch "Client_read (Tx n)"] by (simp add: own_handle)

lemma disjoint_neq: "a \<in> A \<Longrightarrow> b \<in> B \<Longrightarrow> A \<inter> B = {} \<Longrightarrow> a \<noteq> b"
  by blast

text \<open>
  Of two root calls that run concurrently, under any schedule, neither observes a store or a
  handle of the other: what a chain reads is a store it installed itself, and the two
  chains' stores carry the clients of different native transactions. The identifier of a
  store is the characters 2 to 8 of the draw made for it, and the two roots use different
  draws.
\<close>

lemma concurrent_roots_isolation:
  "let c = run_schedule this schedule (concurrent_roots w callback1 callback2) in
   (\<forall>s. Store_read (Some s) \<in> set (seen (left c)) \<longrightarrow> s \<in> stores (left c) \<and> s \<notin> stores (right c)) \<and>
   (\<forall>s. Store_read (Some s) \<in> set (seen (right c)) \<longrightarrow> s \<in> stores (right c) \<and> s \<notin> stores (left c)) \<and>
   (\<forall>n. Client_read (Tx n) \<in> set (seen (left c)) \<longrightarrow>
        Tx n \<in> txClient ` stores (left c) \<and> Tx n \<notin> txClient ` stores (right c)) \<and>
   (\<forall>n. Client_read (Tx n) \<in> set (seen (right c)) \<longrightarrow>
        Tx n \<in> txClient ` stores (right c) \<and> Tx n \<notin> txClient ` stores (left c)) \<and>
   (\<forall>x \<in> set (begun (left c)). \<forall>y \<in> set (begun (right c)).
        fst x \<noteq> fst y \<and> txClient (snd x) \<noteq> txClient (snd y) \<and>
        transactionId (snd x) = substring 2 9 (random w (fst x)) \<and>
        transactionId (snd y) = substring 2 9 (random w (fst y)))"
proof -
  define c where "c = run_schedule this schedule (concurrent_roots w callback1 callback2)"
  have iso: "isolated c"
    unfolding c_def by (rule run_schedule_isolated) (rule concurrent_roots_isolated)
  have rnd: "random (shared c) = random w"
    unfolding c_def by (simp add: run_schedule_random concurrent_roots_def)
  from iso have l: "chain_ok (shared c) (left c)" and r: "chain_ok (shared c) (right c)"
    and ap: "apart (left c) (right c)"
    by (simp_all add: isolated_def)
  from ap have dj: "txClient ` stores (left c) \<inter> txClient ` stores (right c) = {}"
    and dd: "draws (left c) \<inter> draws (right c) = {}"
    by (simp_all add: apart_def)
  from dj have sj: "stores (left c) \<inter> stores (right c) = {}" by blast
  have 1: "\<forall>s. Store_read (Some s) \<in> set (seen (left c)) \<longrightarrow> s \<in> stores (left c) \<and> s \<notin> stores (right c)"
    using seen_store[OF l] sj by blast
  have 2: "\<forall>s. Store_read (Some s) \<in> set (seen (right c)) \<longrightarrow> s \<in> stores (right c) \<and> s \<notin> stores (left c)"
    using seen_store[OF r] sj by blast
  have 3: "\<forall>n. Client_read (Tx n) \<in> set (seen (left c)) \<longrightarrow>
        Tx n \<in> txClient ` stores (left c) \<and> Tx n \<notin> txClient ` stores (right c)"
    using seen_handle[OF l] dj by blast
  have 4: "\<forall>n. Client_read (Tx n) \<in> set (seen (right c)) \<longrightarrow>
        Tx n \<in> txClient ` stores (right c) \<and> Tx n \<notin> txClient ` stores (left c)"
    using seen_handle[OF r] dj by blast
  have 5: "\<forall>x \<in> set (begun (left c)). \<forall>y \<in> set (begun (right c)).
        fst x \<noteq> fst y \<and> txClient (snd x) \<noteq> txClient (snd y) \<and>
        transactionId (snd x) = substring 2 9 (random w (fst x)) \<and>
        transactionId (snd y) = substring 2 9 (random w (fst y))"
  proof (intro ballI conjI)
    fix x y
    assume x: "x \<in> set (begun (left c))" and y: "y \<in> set (begun (right c))"
    from x have dx: "fst x \<in> draws (left c)" by (simp add: draws_def)
    from y have dy: "fst y \<in> draws (right c)" by (simp add: draws_def)
    from dx dy dd show "fst x \<noteq> fst y" by (rule disjoint_neq)
    from x have hx: "txClient (snd x) \<in> txClient ` stores (left c)" by (simp add: stores_def)
    from y have hy: "txClient (snd y) \<in> txClient ` stores (right c)" by (simp add: stores_def)
    from hx hy dj show "txClient (snd x) \<noteq> txClient (snd y)" by (rule disjoint_neq)
    from x have "(fst x, snd x) \<in> set (begun (left c))" by simp
    from chain_ok_begun[OF l this] rnd
    show "transactionId (snd x) = substring 2 9 (random w (fst x))" by simp
    from y have "(fst y, snd y) \<in> set (begun (right c))" by simp
    from chain_ok_begun[OF r this] rnd
    show "transactionId (snd y) = substring 2 9 (random w (fst y))" by simp
  qed
  show ?thesis
    unfolding Let_def c_def[symmetric]
    using 1 2 3 4 5 by (intro conjI)
qed

lemma race_eval:
  "race = \<lparr>shared = boot\<lparr>opened := 2, drawn := 2\<rparr>,
           left = \<lparr>stack = [Activation (Some \<lparr>txClient = Tx 0, transactionId = ''bb5exfi''\<rparr>) []
                              (Some 0),
                            Activation None [] None],
                   awaiting = None,
                   seen = [Store_read (Some \<lparr>txClient = Tx 0, transactionId = ''bb5exfi''\<rparr>),
                           Client_read (Tx 0)],
                   begun = [(0, \<lparr>txClient = Tx 0, transactionId = ''bb5exfi''\<rparr>)]\<rparr>,
           right = \<lparr>stack = [Activation (Some \<lparr>txClient = Tx 1, transactionId = ''bb5exfi''\<rparr>) []
                               (Some 1),
                             Activation None [] None],
                    awaiting = None,
                    seen = [Store_read (Some \<lparr>txClient = Tx 1, transactionId = ''bb5exfi''\<rparr>),
                            Client_read (Tx 1)],
                    begun = [(1, \<lparr>txClient = Tx 1, transactionId = ''bb5exfi''\<rparr>)]\<rparr>\<rparr>"
  by (simp add: race_def concurrent_roots_def root_chain_def step_def advance_def
      new_transactionId_def substring_def boot_def service_def client_def Let_def)

text \<open>
  C5. \<^emph>\<open>Two concurrent root calls never observe each other's store, and their transaction
  identifiers are distinct.\<close>
  Two root calls started together, each reading the store and the client in its callback,
  the values of \<^verbatim>\<open>Math.random()\<close> being \<^verbatim>\<open>0.3141592653589793\<close> for the first draw and
  \<^verbatim>\<open>0.3141592653589844\<close> for the second: the texts \<^verbatim>\<open>0.bb5exfivbcc\<close> and \<^verbatim>\<open>0.bb5exfivbv\<close>
  differ, and the two roots, each in the store of its own native transaction, get the same
  identifier \<^verbatim>\<open>bb5exfi\<close>, which the source calls unique (\<^verbatim>\<open>decorator.ts:788\<close>, \<^verbatim>\<open>833\<close>).
\<close>

theorem concurrent_roots_share_identifier:
  "random boot 0 = ''0.bb5exfivbcc'' \<and> random boot 1 = ''0.bb5exfivbv'' \<and>
   seen (left race) = [Store_read (Some \<lparr>txClient = Tx 0, transactionId = ''bb5exfi''\<rparr>),
                       Client_read (Tx 0)] \<and>
   seen (right race) = [Store_read (Some \<lparr>txClient = Tx 1, transactionId = ''bb5exfi''\<rparr>),
                        Client_read (Tx 1)] \<and>
   map (transactionId \<circ> snd) (begun (left race)) = [''bb5exfi''] \<and>
   map (transactionId \<circ> snd) (begun (right race)) = [''bb5exfi'']"
  by (simp add: race_eval) (simp add: boot_def)

text \<open>The same run, read through \<open>concurrent_roots_isolation\<close>: each root has seen its own
  store and client, which the other has not installed.\<close>

lemma concurrent_roots_isolation_race:
  "Store_read (Some \<lparr>txClient = Tx 0, transactionId = ''bb5exfi''\<rparr>) \<in> set (seen (left race)) \<and>
   \<lparr>txClient = Tx 0, transactionId = ''bb5exfi''\<rparr> \<in> stores (left race) \<and>
   \<lparr>txClient = Tx 0, transactionId = ''bb5exfi''\<rparr> \<notin> stores (right race) \<and>
   Store_read (Some \<lparr>txClient = Tx 1, transactionId = ''bb5exfi''\<rparr>) \<in> set (seen (right race)) \<and>
   \<lparr>txClient = Tx 1, transactionId = ''bb5exfi''\<rparr> \<in> stores (right race) \<and>
   \<lparr>txClient = Tx 1, transactionId = ''bb5exfi''\<rparr> \<notin> stores (left race) \<and>
   Client_read (Tx 0) \<in> set (seen (left race)) \<and>
   Tx 0 \<in> txClient ` stores (left race) \<and>
   Tx 0 \<notin> txClient ` stores (right race) \<and>
   Client_read (Tx 1) \<in> set (seen (right race)) \<and>
   Tx 1 \<in> txClient ` stores (right race) \<and>
   Tx 1 \<notin> txClient ` stores (left race) \<and>
   (0, \<lparr>txClient = Tx 0, transactionId = ''bb5exfi''\<rparr>) \<in> set (begun (left race)) \<and>
   (1, \<lparr>txClient = Tx 1, transactionId = ''bb5exfi''\<rparr>) \<in> set (begun (right race)) \<and>
   substring 2 9 (random boot 0) = ''bb5exfi'' \<and>
   substring 2 9 (random boot 1) = ''bb5exfi''"
proof -
  let ?s0 = "\<lparr>txClient = Tx 0, transactionId = ''bb5exfi''\<rparr>"
  let ?s1 = "\<lparr>txClient = Tx 1, transactionId = ''bb5exfi''\<rparr>"
  have l: "Store_read (Some ?s0) \<in> set (seen (left race))"
    and r: "Store_read (Some ?s1) \<in> set (seen (right race))"
    and lc: "Client_read (Tx 0) \<in> set (seen (left race))"
    and rc: "Client_read (Tx 1) \<in> set (seen (right race))"
    and lb: "(0, ?s0) \<in> set (begun (left race))"
    and rb: "(1, ?s1) \<in> set (begun (right race))"
    by (simp_all add: race_eval)
  from concurrent_roots_isolation
         [of service "[True, False, True, False, True, False, True, False]" boot
             "[GetStore, UseClient]" "[GetStore, UseClient]"]
  have a: "\<forall>s. Store_read (Some s) \<in> set (seen (left race)) \<longrightarrow>
              s \<in> stores (left race) \<and> s \<notin> stores (right race)"
    and b: "\<forall>s. Store_read (Some s) \<in> set (seen (right race)) \<longrightarrow>
              s \<in> stores (right race) \<and> s \<notin> stores (left race)"
    and c: "\<forall>n. Client_read (Tx n) \<in> set (seen (left race)) \<longrightarrow>
              Tx n \<in> txClient ` stores (left race) \<and> Tx n \<notin> txClient ` stores (right race)"
    and d: "\<forall>n. Client_read (Tx n) \<in> set (seen (right race)) \<longrightarrow>
              Tx n \<in> txClient ` stores (right race) \<and> Tx n \<notin> txClient ` stores (left race)"
    and e: "\<forall>x \<in> set (begun (left race)). \<forall>y \<in> set (begun (right race)).
              fst x \<noteq> fst y \<and> txClient (snd x) \<noteq> txClient (snd y) \<and>
              transactionId (snd x) = substring 2 9 (random boot (fst x)) \<and>
              transactionId (snd y) = substring 2 9 (random boot (fst y))"
    by (simp_all add: Let_def race_def)
  from a l have 1: "?s0 \<in> stores (left race) \<and> ?s0 \<notin> stores (right race)" by blast
  from b r have 2: "?s1 \<in> stores (right race) \<and> ?s1 \<notin> stores (left race)" by blast
  from c lc have 3: "Tx 0 \<in> txClient ` stores (left race) \<and> Tx 0 \<notin> txClient ` stores (right race)"
    by blast
  from d rc have 4: "Tx 1 \<in> txClient ` stores (right race) \<and> Tx 1 \<notin> txClient ` stores (left race)"
    by blast
  from e lb rb have 5: "substring 2 9 (random boot 0) = ''bb5exfi'' \<and>
                        substring 2 9 (random boot 1) = ''bb5exfi''"
    by force
  from l r lc rc lb rb 1 2 3 4 5 show ?thesis by simp
qed

end
